theory Spec2Isabelle
  imports Main
begin

section \<open>JavaScript values\<close>

text \<open>
  The binder works on values of type \<open>any\<close>. Only the shape that the code inspects is
  kept: whether a value is \<open>undefined\<close>, whether it is truthy, and whether it is a given
  string. Numbers are restricted to the integers and \<open>NaN\<close>; every other number is truthy
  like a non-zero integer. \<open>JObj\<close> stands for any other object (always truthy).
\<close>

datatype jsval =
    JUndefined
  | JNull
  | JBool bool
  | JNum int
  | JNaN
  | JStr string
  | JArr "jsval list"
  | JObj nat

text \<open>The negation of \<open>!v\<close>: JavaScript's ToBoolean.\<close>

fun truthy :: "jsval \<Rightarrow> bool" where
  "truthy JUndefined = False"
| "truthy JNull = False"
| "truthy (JBool b) = b"
| "truthy (JNum n) = (n \<noteq> 0)"
| "truthy JNaN = False"
| "truthy (JStr s) = (s \<noteq> [])"
| "truthy (JArr xs) = True"
| "truthy (JObj a) = True"

text \<open>
  Reading and writing an array element, \<open>args[i]\<close> and \<open>args[i] = v\<close>. A read outside
  the array gives \<open>undefined\<close>; a write at or past the end extends the array, the
  positions in between reading as \<open>undefined\<close>. A negative index is a property name that
  is no element: reading it gives \<open>undefined\<close> here and writing it leaves the elements
  and the length alone.
\<close>

definition js_get :: "jsval list \<Rightarrow> int \<Rightarrow> jsval" where
  "js_get xs i = (if 0 \<le> i \<and> nat i < length xs then xs ! nat i else JUndefined)"

definition js_set :: "jsval list \<Rightarrow> int \<Rightarrow> jsval \<Rightarrow> jsval list" where
  "js_set xs i v =
     (if i < 0 then xs
      else if nat i < length xs then xs[nat i := v]
      else xs @ replicate (nat i - length xs) JUndefined @ [v])"

section \<open>Errors\<close>

text \<open>
  Spec objects live in a store and are named by their address, so an error that carries
  spec objects carries addresses.
\<close>

type_synonym ref = nat

text \<open>
  \<open>Error msg\<close> is \<open>new Error(msg)\<close>. \<open>InvalidChoice input choices\<close> is the \<open>Error\<close> thrown
  by the binder with the message
  \<^verbatim>\<open>Expected "${input}" to be one of:\n${choices.join('\n')}\<close>, kept structured.
  \<open>VersionSignal text\<close> is an instance of \<open>VersionSignal\<close> whose \<open>render()\<close> returns
  \<open>text\<close>. \<open>Thrown v\<close> is any other thrown value.
\<close>

datatype error =
    Error string
  | TypeError string
  | InvalidChoice jsval "string list"
  | RequiredArgsError "ref list"
  | UnexpectedArgsError "jsval list"
  | VersionSignal string
  | Thrown jsval

section \<open>Argument specifications (args.ts)\<close>

text \<open>
  \<open>choices\<close> is an array of strings or a supplier of one; a supplier is modelled by the
  outcome of calling (and awaiting) it.
\<close>

datatype choices = ChoicesArray "string list" | ChoicesFn "error + string list"

text \<open>
  The interface \<open>Arg<T>\<close>. Optional fields are options. \<open>arg_id\<close> is the field \<open>id\<close>.
  \<open>parse\<close> may throw. \<open>default_supplier\<close> is the field \<open>default\<close>: the outcome of
  awaiting the supplier when it is present. The field \<open>toString\<close> only renders text and
  is left out.
\<close>

record Arg =
  arg_id :: int
  name :: "string option"
  description :: "string option"
  required :: bool
  rest :: "bool option"
  hidden :: "bool option"
  parse :: "jsval \<Rightarrow> error + jsval"
  choices :: "choices option"
  default_supplier :: "(error + jsval) option"

text \<open>\<open>def.rest\<close> used as a condition, and \<open>def.rest === true\<close>: both hold exactly for \<open>true\<close>.\<close>

definition is_rest :: "Arg \<Rightarrow> bool" where
  "is_rest d = (rest d = Some True)"

subsection \<open>validateNothingRequiredAfterOptional\<close>

datatype mode = ModeRequired | ModeOptional | ModeRest

text \<open>The \<open>for\<close> loop, with the local variable \<open>state\<close> as first argument.\<close>

fun validateLoop :: "mode \<Rightarrow> Arg list \<Rightarrow> error + unit" where
  "validateLoop st [] = Inr ()"
| "validateLoop ModeRequired (d # ds) =
     (if is_rest d then validateLoop ModeRest ds
      else if \<not> required d then validateLoop ModeOptional ds
      else validateLoop ModeRequired ds)"
| "validateLoop ModeOptional (d # ds) =
     (if required d then Inl (Error ''required arguments may not follow optional arguments'')
      else if is_rest d then validateLoop ModeRest ds
      else validateLoop ModeOptional ds)"
| "validateLoop ModeRest (d # ds) = Inl (Error ''rest args must be the last ones defined'')"

definition validateNothingRequiredAfterOptional :: "Arg list \<Rightarrow> error + unit" where
  "validateNothingRequiredAfterOptional defs = validateLoop ModeRequired defs"

definition validateArgDefs :: "Arg list \<Rightarrow> error + unit" where
  "validateArgDefs argDefs = validateNothingRequiredAfterOptional argDefs"

subsection \<open>numOptionalArgs\<close>

text \<open>\<open>args.reduce((total, arg) => arg.rest ? -1 : total + 1, 0)\<close>\<close>

definition numOptionalArgs :: "Arg list \<Rightarrow> int" where
  "numOptionalArgs args = foldl (\<lambda>total a. if is_rest a then - 1 else total + 1) 0 args"

subsection \<open>The builder\<close>

text \<open>
  The entry points \<open>arg.required\<close>, \<open>arg.optional\<close> and \<open>arg.rest\<close> of the default
  builder \<open>argBuilder({parse: s => s})\<close>, called with a name and an options bag. A
  default given as a plain value has already been wrapped into a supplier.
\<close>

record ArgOpts =
  opt_description :: "string option"
  opt_parse :: "(jsval \<Rightarrow> error + jsval) option"
  opt_choices :: "choices option"
  opt_default :: "(error + jsval) option"

definition no_opts :: ArgOpts where
  "no_opts = \<lparr>opt_description = None, opt_parse = None, opt_choices = None, opt_default = None\<rparr>"

definition argBuilder :: "bool \<Rightarrow> bool option \<Rightarrow> string \<Rightarrow> ArgOpts \<Rightarrow> Arg" where
  "argBuilder req rst nm opts =
     \<lparr>arg_id = - 1, name = Some nm, description = opt_description opts,
      required = req, rest = rst, hidden = None,
      parse = (case opt_parse opts of None \<Rightarrow> (\<lambda>s. Inr s) | Some f \<Rightarrow> f),
      choices = opt_choices opts, default_supplier = opt_default opts\<rparr>"

definition arg_required :: "string \<Rightarrow> ArgOpts \<Rightarrow> Arg" where
  "arg_required nm opts = argBuilder True None nm opts"

definition arg_optional :: "string \<Rightarrow> ArgOpts \<Rightarrow> Arg" where
  "arg_optional nm opts = argBuilder False None nm opts"

definition arg_rest :: "string \<Rightarrow> ArgOpts \<Rightarrow> Arg" where
  "arg_rest nm opts = argBuilder False (Some True) nm opts"

subsection \<open>The store of spec objects and addIdToArgs\<close>

text \<open>
  Spec objects are mutable and may be shared: the definition list is a list of addresses
  into a store of spec objects. \<open>objs_of ds\<close> is a store that holds the specs \<open>ds\<close> at the
  addresses 0, 1, ...; every other address holds an unnamed required spec.
\<close>

definition objs_of :: "Arg list \<Rightarrow> ref \<Rightarrow> Arg" where
  "objs_of ds r = (if r < length ds then ds ! r else arg_required [] no_opts)"

text \<open>
  \<open>addIdToArgs\<close> writes the field \<open>id\<close> of the object at each position of the list; the
  loop counter is the first argument.
\<close>

fun addIdToArgsLoop :: "nat \<Rightarrow> ref list \<Rightarrow> (ref \<Rightarrow> Arg) \<Rightarrow> (ref \<Rightarrow> Arg)" where
  "addIdToArgsLoop i [] h = h"
| "addIdToArgsLoop i (r # rs) h = addIdToArgsLoop (Suc i) rs (h(r := (h r)\<lparr>arg_id := int i\<rparr>))"

definition addIdToArgs :: "ref list \<Rightarrow> (ref \<Rightarrow> Arg) \<Rightarrow> (ref \<Rightarrow> Arg)" where
  "addIdToArgs args h = addIdToArgsLoop 0 args h"

section \<open>Commands (command.ts)\<close>

text \<open>
  The flag schema (flags.ts) and the run context (context.ts) belong to other modules:
  a flag definition is an opaque type, the context a type parameter. Standard output is
  the list of lines written so far.
\<close>

typedecl Flag

type_synonym Flags = "(string \<times> Flag) list"

type_synonym stdout = "string list"

text \<open>\<open>RunParams\<close>, the object \<open>{args, flags, ctx}\<close> that a run function receives.\<close>

record 'ctx RunParams =
  rp_args :: "jsval list"
  rp_flags :: "(string \<times> jsval) list"
  rp_ctx :: 'ctx

text \<open>
  \<open>FullOptions\<close> and the class \<open>Command\<close>, whose only field is \<open>options\<close>. A run
  function returns a value or throws, and may write to standard output.
\<close>

datatype 'ctx FullOptions =
  FullOptions
    (opt_args: "ref list")
    (opt_flags: Flags)
    (run: "('ctx RunParams \<Rightarrow> stdout \<Rightarrow> (error + jsval) \<times> stdout) option")
    (subcommands: "(string \<times> 'ctx Command) list option")
and 'ctx Command =
  Command (options: "'ctx FullOptions")

text \<open>The argument of the constructor: every field may be absent.\<close>

record 'ctx Options =
  p_args :: "ref list option"
  p_flags :: "Flags option"
  p_run :: "('ctx RunParams \<Rightarrow> stdout \<Rightarrow> (error + jsval) \<times> stdout) option"
  p_subcommands :: "(string \<times> 'ctx Command) list option"

text \<open>What \<open>parse(this.options, argv)\<close> resolves to.\<close>

record 'ctx Parsed =
  parsed_args :: "jsval list"
  parsed_flags :: "(string \<times> jsval) list"
  parsed_subcommand :: "'ctx Command option"

section \<open>The binder: validateArgs (args.ts)\<close>

text \<open>The object \<open>{subcommand}\<close> that \<open>validateArgs\<close> returns.\<close>

record 'ctx Validated =
  subcommand :: "'ctx Command option"

text \<open>
  The state that \<open>validateArgs\<close> mutates: the store of spec objects and the elements of
  the array \<open>args\<close> that the caller passed.
\<close>

record store =
  objs :: "ref \<Rightarrow> Arg"
  arr :: "jsval list"

text \<open>\<open>choices.includes(input)\<close> for an array of strings.\<close>

definition array_includes :: "string list \<Rightarrow> jsval \<Rightarrow> bool" where
  "array_includes cs v = (case v of JStr s \<Rightarrow> s \<in> set cs | _ \<Rightarrow> False)"

text \<open>The \<open>if (def.choices) { ... }\<close> block of the first loop.\<close>

definition checkChoices :: "Arg \<Rightarrow> jsval \<Rightarrow> error + unit" where
  "checkChoices d input =
     (case choices d of
        None \<Rightarrow> Inr ()
      | Some c \<Rightarrow>
          (case (case c of ChoicesArray cs \<Rightarrow> Inr cs | ChoicesFn r \<Rightarrow> r) of
             Inl e \<Rightarrow> Inl e
           | Inr cs \<Rightarrow> if array_includes cs input then Inr () else Inl (InvalidChoice input cs)))"

text \<open>
  The body of the first loop for one spec and its input: the choices are checked, then the
  input is parsed.
\<close>

definition bindToken :: "Arg \<Rightarrow> jsval \<Rightarrow> error + jsval" where
  "bindToken d input =
     (case checkChoices d input of
        Inl e \<Rightarrow> Inl e
      | Inr _ \<Rightarrow> parse d input)"

text \<open>
  The first loop, over \<open>defs.slice(0, args.length)\<close>: the array as it is when the loop
  stops is returned with the outcome.
\<close>

fun parseLoop :: "Arg list \<Rightarrow> jsval list \<Rightarrow> (error + unit) \<times> jsval list" where
  "parseLoop [] args = (Inr (), args)"
| "parseLoop (d # ds) args =
     (case bindToken d (js_get args (arg_id d)) of
        Inl e \<Rightarrow> (Inl e, args)
      | Inr v \<Rightarrow> parseLoop ds (js_set args (arg_id d) v))"

text \<open>The second loop, over \<open>missingArgs\<close>.\<close>

fun defaultLoop :: "Arg list \<Rightarrow> jsval list \<Rightarrow> (error + unit) \<times> jsval list" where
  "defaultLoop [] args = (Inr (), args)"
| "defaultLoop (d # ds) args =
     (case default_supplier d of
        None \<Rightarrow> defaultLoop ds args
      | Some (Inl e) \<Rightarrow> (Inl e, args)
      | Some (Inr v) \<Rightarrow>
          if v = JUndefined then defaultLoop ds args
          else defaultLoop ds (js_set args (arg_id d) v))"

text \<open>\<open>args.slice(start)\<close>: a negative start counts from the end.\<close>

definition js_slice_from :: "jsval list \<Rightarrow> int \<Rightarrow> jsval list" where
  "js_slice_from xs start =
     (if start < 0 then drop (nat (int (length xs) + start)) xs else drop (nat start) xs)"

text \<open>
  \<open>validateArgs\<close>. The parameter \<open>ctx\<close> is not used. The spec objects are read from the
  store after \<open>addIdToArgs\<close>, which is the only write to them. The result is the outcome
  together with the store and the array as the call leaves them, also when it throws.
\<close>

definition validateArgs ::
  "'c \<Rightarrow> ref list \<Rightarrow> store \<Rightarrow> (error + 'ctx Validated) \<times> store" where
  "validateArgs ctx defs s =
     (let h = addIdToArgs defs (objs s);
          ds = map h defs;
          maxArgs = numOptionalArgs ds;
          args0 = arr s
      in case parseLoop (take (length args0) ds) args0 of
           (Inl e, args1) \<Rightarrow> (Inl e, \<lparr>objs = h, arr = args1\<rparr>)
         | (Inr _, args1) \<Rightarrow>
             (let missingArgs = drop (length args1) ds
              in case defaultLoop missingArgs args1 of
                   (Inl e, args2) \<Rightarrow> (Inl e, \<lparr>objs = h, arr = args2\<rparr>)
                 | (Inr _, args2) \<Rightarrow>
                     (let missingRequiredArgs =
                            filter (\<lambda>a. required (h a) \<and> \<not> truthy (js_get args2 (arg_id (h a)))) defs
                      in if length missingRequiredArgs \<noteq> 0
                         then (Inl (RequiredArgsError missingRequiredArgs), \<lparr>objs = h, arr = args2\<rparr>)
                         else if maxArgs \<noteq> - 1 \<and> int (length args2) > maxArgs
                         then (Inl (UnexpectedArgsError (js_slice_from args2 maxArgs)),
                               \<lparr>objs = h, arr = args2\<rparr>)
                         else (Inr \<lparr>subcommand = None\<rparr>, \<lparr>objs = h, arr = args2\<rparr>))))"

section \<open>Command construction and exec (command.ts)\<close>

definition runOrSubcommandsCheck :: "'ctx FullOptions \<Rightarrow> error + unit" where
  "runOrSubcommandsCheck opts =
     (if subcommands opts \<noteq> None \<and> run opts \<noteq> None
      then Inl (Error ''command may have subcommands OR a run function but not both.'')
      else if subcommands opts = None \<and> run opts = None
      then Inl (Error ''command must have subcommands OR a run function'')
      else Inr ())"

text \<open>
  The constructor calls \<open>validateArgDefs(this.options)\<close>: the argument is the options
  object itself, not its field \<open>args\<close>. \<open>validateNothingRequiredAfterOptional\<close> starts
  with \<open>for (const def of defs)\<close>, and an object \<open>{args, flags, run, subcommands}\<close> has no
  iterator, so the call throws a \<open>TypeError\<close> before it reads any spec.
\<close>

definition validateArgDefs_options :: "'ctx FullOptions \<Rightarrow> error + unit" where
  "validateArgDefs_options opts = Inl (TypeError ''defs is not iterable'')"

text \<open>
  \<open>new Command(options)\<close>: the fields \<open>args\<close> and \<open>flags\<close> default to \<open>[]\<close> and \<open>{}\<close>.
\<close>

definition Command_constructor :: "'ctx Options \<Rightarrow> error + 'ctx Command" where
  "Command_constructor po =
     (let opts = FullOptions (case p_args po of None \<Rightarrow> [] | Some a \<Rightarrow> a)
                         (case p_flags po of None \<Rightarrow> [] | Some f \<Rightarrow> f)
                         (p_run po) (p_subcommands po)
      in case runOrSubcommandsCheck opts of
           Inl e \<Rightarrow> Inl e
         | Inr _ \<Rightarrow>
             (case validateArgDefs_options opts of
                Inl e \<Rightarrow> Inl e
              | Inr _ \<Rightarrow> Inr (Command opts)))"

text \<open>The \<open>catch\<close> block of \<open>exec\<close>.\<close>

definition catchBlock :: "error \<Rightarrow> stdout \<Rightarrow> (error + jsval) \<times> stdout" where
  "catchBlock err out =
     (case err of
        VersionSignal text \<Rightarrow> (Inr JUndefined, out @ [text])
      | _ \<Rightarrow> (Inl err, out))"

text \<open>
  \<open>exec\<close>. The flag parser \<open>parse\<close> (parse.ts) and the constructor of \<open>Context\<close> are
  parameters: both may throw, and \<open>parse\<close> may write to standard output. A subcommand is
  run by the same method, and nothing bounds how often \<open>parse\<close> selects one, so \<open>exec\<close>
  is a partial function: \<open>None\<close> is a call that never settles.
\<close>

partial_function (option) exec ::
  "('ctx FullOptions \<Rightarrow> jsval list \<Rightarrow> stdout \<Rightarrow> (error + 'ctx Parsed) \<times> stdout) \<Rightarrow>
   ('ctx Command \<Rightarrow> error + 'ctx) \<Rightarrow>
   'ctx Command \<Rightarrow> jsval list \<Rightarrow> stdout \<Rightarrow> ((error + jsval) \<times> stdout) option" where
  "exec parseArgv newContext cmd argv out =
     (case parseArgv (options cmd) argv out of
        (Inl err, out1) \<Rightarrow> Some (catchBlock err out1)
      | (Inr p, out1) \<Rightarrow>
          (case newContext cmd of
             Inl err \<Rightarrow> Some (catchBlock err out1)
           | Inr c \<Rightarrow>
               (case parsed_subcommand p of
                  Some sub \<Rightarrow>
                    Option.bind (exec parseArgv newContext sub (parsed_args p) out1)
                      (\<lambda>r. case r of
                              (Inl err, out2) \<Rightarrow> Some (catchBlock err out2)
                            | (Inr result, out2) \<Rightarrow> Some (Inr result, out2))
                | None \<Rightarrow>
                    (case run (options cmd) of
                       Some f \<Rightarrow>
                         (case f \<lparr>rp_args = parsed_args p, rp_flags = parsed_flags p, rp_ctx = c\<rparr> out1 of
                            (Inl err, out2) \<Rightarrow> Some (catchBlock err out2)
                          | (Inr result, out2) \<Rightarrow> Some (Inr result, out2))
                     | None \<Rightarrow> Some (Inr JUndefined, out1)))))"

section \<open>Inputs for concrete instances of \<open>exec\<close>\<close>

text \<open>
  A flag parser, commands and run functions on which the properties of \<open>exec\<close> are
  instantiated. \<open>ex_parse\<close> throws the version signal for the argument vector
  \<open>["--version"]\<close>, selects a subcommand by its name, and otherwise passes the tokens on.
  \<open>ex_command f\<close> is a command that runs \<open>f\<close>, \<open>ex_parent sub\<close> one with the single
  subcommand \<open>sub\<close>, and \<open>ex_throw e\<close> a run function that throws \<open>e\<close>.
\<close>

definition ex_parse :: "unit FullOptions \<Rightarrow> jsval list \<Rightarrow> stdout \<Rightarrow> (error + unit Parsed) \<times> stdout" where
  "ex_parse opts argv out =
     (if argv = [JStr ''--version''] then (Inl (VersionSignal ''1.0.0''), out)
      else case (argv, subcommands opts) of
             (JStr nm # others, Some subs) \<Rightarrow>
               (case map_of subs nm of
                  Some sub \<Rightarrow>
                    (Inr \<lparr>parsed_args = others, parsed_flags = [], parsed_subcommand = Some sub\<rparr>, out)
                | None \<Rightarrow> (Inl (Error ''unknown command''), out))
           | _ \<Rightarrow> (Inr \<lparr>parsed_args = argv, parsed_flags = [], parsed_subcommand = None\<rparr>, out))"

definition ex_command :: "(unit RunParams \<Rightarrow> stdout \<Rightarrow> (error + jsval) \<times> stdout) \<Rightarrow> unit Command" where
  "ex_command f = Command (FullOptions [] [] (Some f) None)"

definition ex_parent :: "unit Command \<Rightarrow> unit Command" where
  "ex_parent sub = Command (FullOptions [] [] None (Some [(''sub'', sub)]))"

definition ex_throw :: "error \<Rightarrow> unit RunParams \<Rightarrow> stdout \<Rightarrow> (error + jsval) \<times> stdout" where
  "ex_throw e params out = (Inl e, out)"

section \<open>The ordering invariant in the words of the specification\<close>

text \<open>
  Each spec carries one of three tags. A sequence of tags is monotonic when it is zero or
  more required, then zero or more optional, then at most one rest, and nothing after
  rest.
\<close>

datatype tag = TagRequired | TagOptional | TagRest

definition tag_of :: "Arg \<Rightarrow> tag" where
  "tag_of d = (if is_rest d then TagRest else if required d then TagRequired else TagOptional)"

definition spec_monotonic :: "tag list \<Rightarrow> bool" where
  "spec_monotonic ts =
     (let after_required = dropWhile (\<lambda>t. t = TagRequired) ts;
          after_optional = dropWhile (\<lambda>t. t = TagOptional) after_required
      in after_optional = [] \<or> after_optional = [TagRest])"

text \<open>
  A rest spec is not required (the type \<open>RestArg\<close>, and what \<open>arg.rest\<close> builds): only
  then is an object an argument spec, with a single tag.
\<close>

definition single_tagged :: "Arg \<Rightarrow> bool" where
  "single_tagged d = (is_rest d \<longrightarrow> \<not> required d)"

text \<open>
  What an unsupplied slot holds after binding: the value of its default supplier, or
  nothing (it reads as \<open>undefined\<close>) when there is no default or the default resolves to
  \<open>undefined\<close>.
\<close>

definition default_or_absent :: "Arg \<Rightarrow> jsval" where
  "default_or_absent d = (case default_supplier d of Some (Inr v) \<Rightarrow> v | _ \<Rightarrow> JUndefined)"

section \<open>Properties of the definition validator\<close>

lemma validateLoop_error_form:
  "validateLoop st ds = Inr () \<or> (\<exists>msg. validateLoop st ds = Inl (Error msg))"
  by (induction st ds rule: validateLoop.induct) auto

lemma validateLoop_rest: "(validateLoop ModeRest ds = Inr ()) = (ds = [])"
  by (cases ds) auto

lemma spec_monotonic_Required [simp]:
  "spec_monotonic (TagRequired # ts) = spec_monotonic ts"
  by (simp add: spec_monotonic_def)

lemma spec_monotonic_Rest [simp]:
  "spec_monotonic (TagRest # ts) = (ts = [])"
  by (simp add: spec_monotonic_def)

lemma spec_monotonic_Optional [simp]:
  "spec_monotonic (TagOptional # ts) =
     (dropWhile (\<lambda>t. t = TagOptional) ts = [] \<or> dropWhile (\<lambda>t. t = TagOptional) ts = [TagRest])"
  by (simp add: spec_monotonic_def)

lemma validateLoop_optional:
  "list_all single_tagged ds \<Longrightarrow>
   (validateLoop ModeOptional ds = Inr ()) =
   (dropWhile (\<lambda>t. t = TagOptional) (map tag_of ds) = [] \<or>
    dropWhile (\<lambda>t. t = TagOptional) (map tag_of ds) = [TagRest])"
proof (induction ds)
  case Nil
  then show ?case by simp
next
  case (Cons d ds)
  then have ih: "(validateLoop ModeOptional ds = Inr ()) =
   (dropWhile (\<lambda>t. t = TagOptional) (map tag_of ds) = [] \<or>
    dropWhile (\<lambda>t. t = TagOptional) (map tag_of ds) = [TagRest])" by simp
  from Cons.prems have st: "single_tagged d" by simp
  show ?case
  proof (cases "tag_of d")
    case TagRequired
    then have "required d" by (simp add: tag_of_def split: if_splits)
    with TagRequired show ?thesis by simp
  next
    case TagOptional
    then have "\<not> required d" "\<not> is_rest d" by (simp_all add: tag_of_def split: if_splits)
    with TagOptional ih show ?thesis by simp
  next
    case TagRest
    then have r: "is_rest d" by (simp add: tag_of_def split: if_splits)
    with st have "\<not> required d" by (simp add: single_tagged_def)
    with r TagRest show ?thesis by (simp add: validateLoop_rest)
  qed
qed

lemma validateLoop_required:
  "list_all single_tagged ds \<Longrightarrow>
   (validateLoop ModeRequired ds = Inr ()) = spec_monotonic (map tag_of ds)"
proof (induction ds)
  case Nil
  then show ?case by (simp add: spec_monotonic_def)
next
  case (Cons d ds)
  then have ih: "(validateLoop ModeRequired ds = Inr ()) = spec_monotonic (map tag_of ds)"
    and tl: "list_all single_tagged ds" by simp_all
  show ?case
  proof (cases "tag_of d")
    case TagRequired
    then have "required d" "\<not> is_rest d" by (simp_all add: tag_of_def split: if_splits)
    with TagRequired ih show ?thesis by simp
  next
    case TagOptional
    then have "\<not> required d" "\<not> is_rest d" by (simp_all add: tag_of_def split: if_splits)
    with TagOptional validateLoop_optional [OF tl] show ?thesis by simp
  next
    case TagRest
    then have "is_rest d" by (simp add: tag_of_def split: if_splits)
    with TagRest show ?thesis by (simp add: validateLoop_rest)
  qed
qed

text \<open>
  Claim C1. For every sequence of argument specs (a rest spec is not required, which is
  part of what an argument spec is: the type \<open>RestArg\<close>, and what \<open>arg.rest\<close> builds):
  when the required, optional and rest tags are monotonic (zero or more required, then
  zero or more optional, then at most one rest, nothing after it) \<open>validateArgDefs\<close>
  succeeds, and when they are not it fails with a definition error; nothing but the
  fields \<open>required\<close> and \<open>rest\<close> matters.
\<close>

theorem validateArgDefs_monotonic:
  assumes "list_all single_tagged defs"
  shows "(spec_monotonic (map tag_of defs) \<longrightarrow> validateArgDefs defs = Inr ()) \<and>
         (\<not> spec_monotonic (map tag_of defs) \<longrightarrow> (\<exists>msg. validateArgDefs defs = Inl (Error msg)))"
  using validateLoop_required [OF assms] validateLoop_error_form [of ModeRequired defs]
  by (auto simp: validateArgDefs_def validateNothingRequiredAfterOptional_def)

theorem validateArgDefs_monotonic_witness:
  "list_all single_tagged [arg_required ''a'' no_opts, arg_optional ''b'' no_opts, arg_rest ''c'' no_opts] \<and>
   spec_monotonic (map tag_of [arg_required ''a'' no_opts, arg_optional ''b'' no_opts, arg_rest ''c'' no_opts]) \<and>
   validateArgDefs [arg_required ''a'' no_opts, arg_optional ''b'' no_opts, arg_rest ''c'' no_opts] = Inr () \<and>
   list_all single_tagged [arg_rest ''c'' no_opts, arg_optional ''b'' no_opts] \<and>
   \<not> spec_monotonic (map tag_of [arg_rest ''c'' no_opts, arg_optional ''b'' no_opts]) \<and>
   (\<exists>msg. validateArgDefs [arg_rest ''c'' no_opts, arg_optional ''b'' no_opts] = Inl (Error msg))"
proof -
  have h1: "list_all single_tagged
      [arg_required ''a'' no_opts, arg_optional ''b'' no_opts, arg_rest ''c'' no_opts]"
    by (simp add: single_tagged_def is_rest_def arg_required_def arg_optional_def arg_rest_def
        argBuilder_def)
  have h2: "list_all single_tagged [arg_rest ''c'' no_opts, arg_optional ''b'' no_opts]"
    by (simp add: single_tagged_def is_rest_def arg_optional_def arg_rest_def argBuilder_def)
  have m1: "spec_monotonic (map tag_of
      [arg_required ''a'' no_opts, arg_optional ''b'' no_opts, arg_rest ''c'' no_opts])"
    by (simp add: spec_monotonic_def tag_of_def is_rest_def arg_required_def arg_optional_def
        arg_rest_def argBuilder_def)
  have m2: "\<not> spec_monotonic (map tag_of [arg_rest ''c'' no_opts, arg_optional ''b'' no_opts])"
    by (simp add: spec_monotonic_def tag_of_def is_rest_def arg_optional_def arg_rest_def
        argBuilder_def)
  show ?thesis
    using h1 h2 m1 m2 validateArgDefs_monotonic [OF h1] validateArgDefs_monotonic [OF h2]
    by simp
qed

lemma validateLoop_snoc_no_rest:
  "validateLoop st (xs @ [x]) = Inr () \<Longrightarrow> d \<in> set xs \<Longrightarrow> \<not> is_rest d"
proof (induction xs arbitrary: st)
  case Nil
  then show ?case by simp
next
  case (Cons a xs)
  show ?case
  proof (cases st)
    case ModeRequired
    with Cons.prems(1) have
      "validateLoop (if is_rest a then ModeRest else if \<not> required a then ModeOptional else ModeRequired) (xs @ [x]) = Inr ()"
      by (simp split: if_splits)
    moreover from this have "\<not> is_rest a" by (cases "is_rest a") (simp_all add: validateLoop_rest)
    ultimately show ?thesis using Cons.IH Cons.prems(2) by auto
  next
    case ModeOptional
    with Cons.prems(1) have nr: "\<not> required a" by (simp split: if_splits)
    with ModeOptional Cons.prems(1) have
      "validateLoop (if is_rest a then ModeRest else ModeOptional) (xs @ [x]) = Inr ()"
      by (simp split: if_splits)
    moreover from this have "\<not> is_rest a" by (cases "is_rest a") (simp_all add: validateLoop_rest)
    ultimately show ?thesis using Cons.IH Cons.prems(2) by auto
  next
    case ModeRest
    with Cons.prems(1) show ?thesis by simp
  qed
qed

lemma foldl_no_rest:
  "\<forall>d \<in> set ds. \<not> is_rest d \<Longrightarrow>
   foldl (\<lambda>total a. if is_rest a then - 1 else total + 1) n ds = n + int (length ds)"
  by (induction ds arbitrary: n) simp_all

lemma numOptionalArgs_snoc:
  "numOptionalArgs (ds @ [d]) = (if is_rest d then - 1 else numOptionalArgs ds + 1)"
  by (simp add: numOptionalArgs_def)

lemma numOptionalArgs_no_rest:
  "\<forall>d \<in> set ds. \<not> is_rest d \<Longrightarrow> numOptionalArgs ds = int (length ds)"
  by (simp add: numOptionalArgs_def foldl_no_rest)

lemma filter_no_rest: "\<forall>d \<in> set ds. \<not> is_rest d \<Longrightarrow> filter (\<lambda>d. \<not> is_rest d) ds = ds"
  by (induction ds) simp_all

text \<open>
  An object that is both rest and required is no argument spec, and no tag fits it:
  whichever of the three it is given, some sequence of monotonic tags is rejected.
\<close>

lemma rest_and_required_has_no_tag:
  assumes "t (arg_required ''a'' no_opts) = TagRequired"
    and "t (arg_optional ''a'' no_opts) = TagOptional"
  shows "\<exists>defs. spec_monotonic (map t defs) \<and> validateArgDefs defs \<noteq> Inr ()"
proof (cases "t ((arg_rest ''b'' no_opts)\<lparr>required := True\<rparr>)")
  case TagRequired
  have "validateArgDefs [(arg_rest ''b'' no_opts)\<lparr>required := True\<rparr>, arg_required ''a'' no_opts] \<noteq> Inr ()"
    by (simp add: validateArgDefs_def validateNothingRequiredAfterOptional_def is_rest_def
        arg_rest_def argBuilder_def)
  moreover have "spec_monotonic
      (map t [(arg_rest ''b'' no_opts)\<lparr>required := True\<rparr>, arg_required ''a'' no_opts])"
    using TagRequired assms by (simp add: spec_monotonic_def)
  ultimately show ?thesis by blast
next
  case TagOptional
  have "validateArgDefs [(arg_rest ''b'' no_opts)\<lparr>required := True\<rparr>, arg_optional ''a'' no_opts] \<noteq> Inr ()"
    by (simp add: validateArgDefs_def validateNothingRequiredAfterOptional_def is_rest_def
        arg_rest_def argBuilder_def)
  moreover have "spec_monotonic
      (map t [(arg_rest ''b'' no_opts)\<lparr>required := True\<rparr>, arg_optional ''a'' no_opts])"
    using TagOptional assms by (simp add: spec_monotonic_def)
  ultimately show ?thesis by blast
next
  case TagRest
  have "validateArgDefs [arg_optional ''a'' no_opts, (arg_rest ''b'' no_opts)\<lparr>required := True\<rparr>] \<noteq> Inr ()"
    by (simp add: validateArgDefs_def validateNothingRequiredAfterOptional_def is_rest_def
        arg_rest_def arg_optional_def argBuilder_def)
  moreover have "spec_monotonic
      (map t [arg_optional ''a'' no_opts, (arg_rest ''b'' no_opts)\<lparr>required := True\<rparr>])"
    using TagRest assms by (simp add: spec_monotonic_def)
  ultimately show ?thesis by blast
qed

text \<open>
  Claim C5. For every definition list that passes validation, \<open>numOptionalArgs\<close> is the
  number of non-rest specs when no spec is a rest slot, and it is the sentinel \<open>-1\<close>
  exactly when some spec is a rest slot.
\<close>

theorem numOptionalArgs_validated:
  assumes "validateArgDefs defs = Inr ()"
  shows "((\<exists>d \<in> set defs. is_rest d) \<longrightarrow> numOptionalArgs defs = - 1) \<and>
         (\<not> (\<exists>d \<in> set defs. is_rest d) \<longrightarrow>
            numOptionalArgs defs = int (length (filter (\<lambda>d. \<not> is_rest d) defs))) \<and>
         ((numOptionalArgs defs = - 1) = (\<exists>d \<in> set defs. is_rest d))"
proof (cases defs rule: rev_cases)
  case Nil
  then show ?thesis by (simp add: numOptionalArgs_def)
next
  case (snoc ds d)
  from assms snoc have nr: "\<forall>x \<in> set ds. \<not> is_rest x"
    using validateLoop_snoc_no_rest [of ModeRequired ds d]
    by (simp add: validateArgDefs_def validateNothingRequiredAfterOptional_def)
  then have n: "numOptionalArgs ds = int (length ds)" by (rule numOptionalArgs_no_rest)
  show ?thesis
  proof (cases "is_rest d")
    case True
    then show ?thesis by (auto simp: snoc numOptionalArgs_snoc)
  next
    case False
    with nr have all: "\<forall>x \<in> set defs. \<not> is_rest x" by (simp add: snoc)
    then have "numOptionalArgs defs = int (length defs)" by (rule numOptionalArgs_no_rest)
    moreover have "filter (\<lambda>d. \<not> is_rest d) defs = defs" using all by (rule filter_no_rest)
    ultimately show ?thesis using all by simp
  qed
qed

theorem numOptionalArgs_validated_witness:
  "validateArgDefs [arg_required ''a'' no_opts, arg_optional ''b'' no_opts] = Inr () \<and>
   numOptionalArgs [arg_required ''a'' no_opts, arg_optional ''b'' no_opts] = 2 \<and>
   validateArgDefs [arg_required ''a'' no_opts, arg_rest ''b'' no_opts] = Inr () \<and>
   numOptionalArgs [arg_required ''a'' no_opts, arg_rest ''b'' no_opts] = - 1"
proof -
  have v1: "validateArgDefs [arg_required ''a'' no_opts, arg_optional ''b'' no_opts] = Inr ()"
    by (simp add: validateArgDefs_def validateNothingRequiredAfterOptional_def is_rest_def
        arg_required_def arg_optional_def argBuilder_def)
  have v2: "validateArgDefs [arg_required ''a'' no_opts, arg_rest ''b'' no_opts] = Inr ()"
    by (simp add: validateArgDefs_def validateNothingRequiredAfterOptional_def is_rest_def
        arg_required_def arg_rest_def argBuilder_def)
  show ?thesis
    using v1 v2 numOptionalArgs_validated [OF v1] numOptionalArgs_validated [OF v2]
    by (simp add: is_rest_def arg_required_def arg_optional_def arg_rest_def argBuilder_def)
qed

section \<open>Arrays, the store and the two loops of the binder\<close>

lemma js_get_js_set:
  "js_get (js_set xs i v) k = (if 0 \<le> i \<and> k = i then v else js_get xs k)"
  by (auto simp: js_get_def js_set_def nth_append nth_list_update split: if_splits)

lemma js_get_nat: "js_get xs (int n) = (if n < length xs then xs ! n else JUndefined)"
  by (simp add: js_get_def)

lemma length_js_set:
  "length (js_set xs i v) = (if 0 \<le> i then max (length xs) (nat i + 1) else length xs)"
  by (auto simp: js_set_def)

lemma parseLoop_length:
  "parseLoop ds xs = (r, ys) \<Longrightarrow> \<forall>d \<in> set ds. arg_id d < int (length xs) \<Longrightarrow>
   length ys = length xs"
proof (induction ds arbitrary: xs)
  case Nil
  then show ?case by simp
next
  case (Cons d ds)
  show ?case
  proof (cases "bindToken d (js_get xs (arg_id d))")
    case (Inl e)
    with Cons.prems show ?thesis by simp
  next
    case (Inr v)
    have len: "length (js_set xs (arg_id d) v) = length xs"
      using Cons.prems(2) by (auto simp: length_js_set)
    from Inr Cons.prems(1) have "parseLoop ds (js_set xs (arg_id d) v) = (r, ys)" by simp
    then have "length ys = length (js_set xs (arg_id d) v)"
      using Cons.prems(2) len by (intro Cons.IH) auto
    with len show ?thesis by simp
  qed
qed

lemma parseLoop_frame:
  "parseLoop ds xs = (r, ys) \<Longrightarrow> \<forall>d \<in> set ds. arg_id d \<noteq> k \<Longrightarrow> js_get ys k = js_get xs k"
proof (induction ds arbitrary: xs)
  case Nil
  then show ?case by simp
next
  case (Cons d ds)
  show ?case
  proof (cases "bindToken d (js_get xs (arg_id d))")
    case (Inl e)
    with Cons.prems show ?thesis by simp
  next
    case (Inr v)
    from Inr Cons.prems(1) have "parseLoop ds (js_set xs (arg_id d) v) = (r, ys)" by simp
    then have "js_get ys k = js_get (js_set xs (arg_id d) v) k"
      using Cons.prems(2) by (intro Cons.IH) auto
    with Cons.prems(2) show ?thesis by (simp add: js_get_js_set)
  qed
qed

text \<open>The first loop over specs whose ids are the consecutive positions from \<open>i\<close> on.\<close>

lemma parseLoop_indexed:
  assumes "\<forall>j < length ds. arg_id (ds ! j) = int (i + j)"
    and "i + length ds \<le> length xs"
    and "\<forall>j < length ds. bindToken (ds ! j) (xs ! (i + j)) = Inr (v (i + j))"
  shows "\<exists>ys. parseLoop ds xs = (Inr (), ys) \<and> length ys = length xs \<and>
           (\<forall>k. js_get ys (int k) =
                  (if i \<le> k \<and> k < i + length ds then v k else js_get xs (int k)))"
  using assms
proof (induction ds arbitrary: i xs)
  case Nil
  then show ?case by auto
next
  case (Cons d ds)
  from Cons.prems(1) have id: "arg_id d = int i" by force
  from Cons.prems(2) have i: "i < length xs" by simp
  from Cons.prems(3) have b: "bindToken d (xs ! i) = Inr (v i)" by force
  let ?xs = "js_set xs (int i) (v i)"
  have len: "length ?xs = length xs" using i by (simp add: length_js_set)
  have ids: "\<forall>j < length ds. arg_id (ds ! j) = int (Suc i + j)"
  proof (intro allI impI)
    fix j assume "j < length ds"
    then have "arg_id ((d # ds) ! Suc j) = int (i + Suc j)"
      using Cons.prems(1) by (auto dest: spec [of _ "Suc j"])
    then show "arg_id (ds ! j) = int (Suc i + j)" by simp
  qed
  have bnd: "Suc i + length ds \<le> length ?xs" using Cons.prems(2) len by simp
  have toks: "\<forall>j < length ds. bindToken (ds ! j) (?xs ! (Suc i + j)) = Inr (v (Suc i + j))"
  proof (intro allI impI)
    fix j assume j: "j < length ds"
    then have "bindToken ((d # ds) ! Suc j) (xs ! (i + Suc j)) = Inr (v (i + Suc j))"
      using Cons.prems(3) by (auto dest: spec [of _ "Suc j"])
    moreover have "?xs ! (Suc i + j) = xs ! (Suc i + j)"
      using i by (simp add: js_set_def)
    ultimately show "bindToken (ds ! j) (?xs ! (Suc i + j)) = Inr (v (Suc i + j))" by simp
  qed
  from Cons.IH [OF ids bnd toks] obtain ys where
    ys: "parseLoop ds ?xs = (Inr (), ys)" "length ys = length ?xs"
      "\<forall>k. js_get ys (int k) =
            (if Suc i \<le> k \<and> k < Suc i + length ds then v k else js_get ?xs (int k))"
    by blast
  have "parseLoop (d # ds) xs = (Inr (), ys)"
    using id i b ys(1) by (simp add: js_get_nat)
  moreover have "length ys = length xs" using ys(2) len by simp
  moreover have "\<forall>k. js_get ys (int k) =
      (if i \<le> k \<and> k < i + length (d # ds) then v k else js_get xs (int k))"
  proof
    fix k
    show "js_get ys (int k) =
      (if i \<le> k \<and> k < i + length (d # ds) then v k else js_get xs (int k))"
      using ys(3) [rule_format, of k] by (auto simp: js_get_js_set)
  qed
  ultimately show ?case by blast
qed

text \<open>The second loop over specs whose ids are the consecutive positions from \<open>i\<close> on.\<close>

lemma defaultLoop_indexed:
  assumes "\<forall>j < length ds. arg_id (ds ! j) = int (i + j)"
    and "length xs \<le> i"
    and "\<forall>j < length ds. \<forall>e. default_supplier (ds ! j) \<noteq> Some (Inl e)"
  shows "\<exists>ys. defaultLoop ds xs = (Inr (), ys) \<and> length xs \<le> length ys \<and>
           length ys \<le> i + length ds \<and>
           (\<forall>k. js_get ys (int k) =
                  (if i \<le> k \<and> k < i + length ds then default_or_absent (ds ! (k - i))
                   else js_get xs (int k)))"
  using assms
proof (induction ds arbitrary: i xs)
  case Nil
  then show ?case by auto
next
  case (Cons d ds)
  from Cons.prems(1) have id: "arg_id d = int i" by force
  from Cons.prems(3) have nothrow: "\<forall>e. default_supplier d \<noteq> Some (Inl e)" by force
  have ids: "\<forall>j < length ds. arg_id (ds ! j) = int (Suc i + j)"
  proof (intro allI impI)
    fix j assume "j < length ds"
    then have "arg_id ((d # ds) ! Suc j) = int (i + Suc j)"
      using Cons.prems(1) by (auto dest: spec [of _ "Suc j"])
    then show "arg_id (ds ! j) = int (Suc i + j)" by simp
  qed
  have dfl: "\<forall>j < length ds. \<forall>e. default_supplier (ds ! j) \<noteq> Some (Inl e)"
  proof (intro allI impI)
    fix j e assume "j < length ds"
    then have "default_supplier ((d # ds) ! Suc j) \<noteq> Some (Inl e)"
      using Cons.prems(3) by (auto dest: spec [of _ "Suc j"])
    then show "default_supplier (ds ! j) \<noteq> Some (Inl e)" by simp
  qed
  define xs1 where "xs1 = (if default_or_absent d = JUndefined then xs
                           else js_set xs (int i) (default_or_absent d))"
  have step: "defaultLoop (d # ds) xs = defaultLoop ds xs1"
    using nothrow id
    by (auto simp: xs1_def default_or_absent_def split: option.splits sum.splits)
  have len1: "length xs1 \<le> Suc i" "length xs \<le> length xs1"
    using Cons.prems(2) by (auto simp: xs1_def length_js_set)
  have out: "js_get xs (int i) = JUndefined" using Cons.prems(2) by (simp add: js_get_nat)
  have get1: "js_get xs1 (int k) = (if k = i then default_or_absent d else js_get xs (int k))" for k
    using out by (auto simp: xs1_def js_get_js_set)
  from Cons.IH [OF ids len1(1) dfl] obtain ys where
    ys: "defaultLoop ds xs1 = (Inr (), ys)" "length xs1 \<le> length ys"
      "length ys \<le> Suc i + length ds"
      "\<forall>k. js_get ys (int k) =
            (if Suc i \<le> k \<and> k < Suc i + length ds then default_or_absent (ds ! (k - Suc i))
             else js_get xs1 (int k))"
    by blast
  have "defaultLoop (d # ds) xs = (Inr (), ys)" using step ys(1) by simp
  moreover have "length xs \<le> length ys" using ys(2) len1(2) by simp
  moreover have "length ys \<le> i + length (d # ds)" using ys(3) by simp
  moreover have "\<forall>k. js_get ys (int k) =
      (if i \<le> k \<and> k < i + length (d # ds) then default_or_absent ((d # ds) ! (k - i))
       else js_get xs (int k))"
  proof
    fix k
    show "js_get ys (int k) =
      (if i \<le> k \<and> k < i + length (d # ds) then default_or_absent ((d # ds) ! (k - i))
       else js_get xs (int k))"
    proof (cases "k = i")
      case True
      then show ?thesis using ys(4) [rule_format, of k] get1 [of k] by simp
    next
      case False
      then show ?thesis
        using ys(4) [rule_format, of k] get1 [of k]
        by (auto simp: nth_Cons' Suc_diff_Suc)
    qed
  qed
  ultimately show ?case by blast
qed

lemma addIdToArgsLoop_other:
  "r \<notin> set rs \<Longrightarrow> addIdToArgsLoop i rs h r = h r"
  by (induction rs arbitrary: i h) auto

lemma addIdToArgsLoop_fields:
  "addIdToArgsLoop i rs h r = (h r)\<lparr>arg_id := arg_id (addIdToArgsLoop i rs h r)\<rparr>"
proof (induction rs arbitrary: i h)
  case Nil
  then show ?case by simp
next
  case (Cons a rs)
  have "addIdToArgsLoop (Suc i) rs (h(a := (h a)\<lparr>arg_id := int i\<rparr>)) r =
        ((h(a := (h a)\<lparr>arg_id := int i\<rparr>)) r)
          \<lparr>arg_id := arg_id (addIdToArgsLoop (Suc i) rs (h(a := (h a)\<lparr>arg_id := int i\<rparr>)) r)\<rparr>"
    by (rule Cons.IH)
  then show ?case by (cases "r = a") simp_all
qed

lemma addIdToArgsLoop_last:
  "j < length rs \<Longrightarrow> \<forall>k. j < k \<and> k < length rs \<longrightarrow> rs ! k \<noteq> rs ! j \<Longrightarrow>
   arg_id (addIdToArgsLoop i rs h (rs ! j)) = int (i + j)"
proof (induction rs arbitrary: i h j)
  case Nil
  then show ?case by simp
next
  case (Cons a rs)
  show ?case
  proof (cases j)
    case 0
    have "a \<notin> set rs"
    proof
      assume "a \<in> set rs"
      then obtain k where "k < length rs" "rs ! k = a" by (auto simp: in_set_conv_nth)
      with Cons.prems(2) 0 show False by (auto dest: spec [of _ "Suc k"])
    qed
    with 0 show ?thesis by (simp add: addIdToArgsLoop_other)
  next
    case (Suc j')
    have later: "\<forall>k. j' < k \<and> k < length rs \<longrightarrow> rs ! k \<noteq> rs ! j'"
    proof (intro allI impI)
      fix k assume "j' < k \<and> k < length rs"
      with Cons.prems(2) Suc show "rs ! k \<noteq> rs ! j'" by (auto dest: spec [of _ "Suc k"])
    qed
    from Cons.prems(1) Suc have "j' < length rs" by simp
    from this later have "arg_id (addIdToArgsLoop (Suc i) rs (h(a := (h a)\<lparr>arg_id := int i\<rparr>)) (rs ! j'))
        = int (Suc i + j')" by (rule Cons.IH)
    with Suc show ?thesis by simp
  qed
qed

lemma addIdToArgsLoop_range:
  "r \<in> set rs \<Longrightarrow> int i \<le> arg_id (addIdToArgsLoop i rs h r) \<and>
     arg_id (addIdToArgsLoop i rs h r) < int (i + length rs)"
proof (induction rs arbitrary: i h)
  case Nil
  then show ?case by simp
next
  case (Cons a rs)
  show ?case
  proof (cases "r \<in> set rs")
    case True
    then have "int (Suc i) \<le> arg_id (addIdToArgsLoop (Suc i) rs (h(a := (h a)\<lparr>arg_id := int i\<rparr>)) r) \<and>
     arg_id (addIdToArgsLoop (Suc i) rs (h(a := (h a)\<lparr>arg_id := int i\<rparr>)) r) < int (Suc i + length rs)"
      by (rule Cons.IH)
    then show ?thesis by simp
  next
    case False
    with Cons.prems have "r = a" by simp
    with False show ?thesis by (simp add: addIdToArgsLoop_other)
  qed
qed

lemma addIdToArgs_required: "required (addIdToArgs defs h r) = required (h r)"
  unfolding addIdToArgs_def by (subst addIdToArgsLoop_fields) simp

lemma addIdToArgs_rest: "is_rest (addIdToArgs defs h r) = is_rest (h r)"
  unfolding addIdToArgs_def is_rest_def by (subst addIdToArgsLoop_fields) simp

lemma addIdToArgs_range:
  "r \<in> set defs \<Longrightarrow> 0 \<le> arg_id (addIdToArgs defs h r) \<and>
     arg_id (addIdToArgs defs h r) < int (length defs)"
  using addIdToArgsLoop_range [of r defs 0 h] by (simp add: addIdToArgs_def)





lemma checkChoices_arg_id [simp]: "checkChoices (d\<lparr>arg_id := x\<rparr>) = checkChoices d"
  by (simp add: checkChoices_def fun_eq_iff)

lemma bindToken_arg_id [simp]: "bindToken (d\<lparr>arg_id := x\<rparr>) = bindToken d"
  by (auto simp: bindToken_def fun_eq_iff split: sum.splits)

lemma default_or_absent_arg_id [simp]: "default_or_absent (d\<lparr>arg_id := x\<rparr>) = default_or_absent d"
  by (simp add: default_or_absent_def)

lemma addIdToArgs_distinct:
  assumes "distinct defs" and "j < length defs"
  shows "addIdToArgs defs h (defs ! j) = (h (defs ! j))\<lparr>arg_id := int j\<rparr>"
proof -
  have "\<forall>k. j < k \<and> k < length defs \<longrightarrow> defs ! k \<noteq> defs ! j"
    using assms by (auto simp: nth_eq_iff_index_eq)
  with assms(2) have "arg_id (addIdToArgsLoop 0 defs h (defs ! j)) = int (0 + j)"
    by (rule addIdToArgsLoop_last)
  then show ?thesis
    unfolding addIdToArgs_def by (subst addIdToArgsLoop_fields) simp
qed

text \<open>Both loops on a list of distinct spec objects, when no token and no default fails.\<close>

lemma binder_loops:
  assumes dist: "distinct defs"
    and toks: "\<forall>i. i < length (arr s) \<and> i < length defs \<longrightarrow>
                 bindToken (objs s (defs ! i)) (arr s ! i) = Inr (v i)"
    and dfls: "\<forall>i. length (arr s) \<le> i \<and> i < length defs \<longrightarrow>
                 (\<forall>e. default_supplier (objs s (defs ! i)) \<noteq> Some (Inl e))"
  shows "\<exists>a1 a2.
           parseLoop (take (length (arr s)) (map (addIdToArgs defs (objs s)) defs)) (arr s) = (Inr (), a1) \<and>
           length a1 = length (arr s) \<and>
           defaultLoop (drop (length a1) (map (addIdToArgs defs (objs s)) defs)) a1 = (Inr (), a2) \<and>
           length (arr s) \<le> length a2 \<and>
           length a2 \<le> max (length (arr s)) (length defs) \<and>
           (\<forall>k. js_get a2 (int k) =
              (if k < length (arr s) \<and> k < length defs then v k
               else if k < length defs then default_or_absent (objs s (defs ! k))
               else js_get (arr s) (int k)))"
proof -
  let ?h = "addIdToArgs defs (objs s)"
  let ?ds = "map ?h defs"
  let ?N = "length (arr s)"
  let ?n = "length defs"
  note st = addIdToArgs_distinct [OF dist]
  have p1: "\<forall>j < length (take ?N ?ds). arg_id (take ?N ?ds ! j) = int (0 + j)"
    by (simp add: st)
  have p2: "0 + length (take ?N ?ds) \<le> length (arr s)" by simp
  have p3: "\<forall>j < length (take ?N ?ds). bindToken (take ?N ?ds ! j) (arr s ! (0 + j)) = Inr (v (0 + j))"
    using toks by (simp add: st)
  from parseLoop_indexed [OF p1 p2 p3] obtain a1 where
    a1: "parseLoop (take ?N ?ds) (arr s) = (Inr (), a1)" "length a1 = ?N"
      "\<forall>k. js_get a1 (int k) =
         (if 0 \<le> k \<and> k < 0 + length (take ?N ?ds) then v k else js_get (arr s) (int k))"
    by blast
  have d1: "\<forall>j < length (drop ?N ?ds). arg_id (drop ?N ?ds ! j) = int (?N + j)"
    by (simp add: st)
  have d2: "length a1 \<le> ?N" using a1(2) by simp
  have d3: "\<forall>j < length (drop ?N ?ds). \<forall>e. default_supplier (drop ?N ?ds ! j) \<noteq> Some (Inl e)"
    using dfls by (simp add: st)
  from defaultLoop_indexed [OF d1 d2 d3] obtain a2 where
    a2: "defaultLoop (drop ?N ?ds) a1 = (Inr (), a2)" "length a1 \<le> length a2"
      "length a2 \<le> ?N + length (drop ?N ?ds)"
      "\<forall>k. js_get a2 (int k) =
         (if ?N \<le> k \<and> k < ?N + length (drop ?N ?ds) then default_or_absent (drop ?N ?ds ! (k - ?N))
          else js_get a1 (int k))"
    by blast
  have vals: "\<forall>k. js_get a2 (int k) =
              (if k < ?N \<and> k < ?n then v k
               else if k < ?n then default_or_absent (objs s (defs ! k))
               else js_get (arr s) (int k))"
  proof
    fix k
    show "js_get a2 (int k) =
              (if k < ?N \<and> k < ?n then v k
               else if k < ?n then default_or_absent (objs s (defs ! k))
               else js_get (arr s) (int k))"
      using a2(4) [rule_format, of k] a1(3) [rule_format, of k]
      by (auto simp: st)
  qed
  have "length a2 \<le> max ?N ?n" using a2(3) by auto
  with a1(1,2) a2(1,2) vals show ?thesis by (intro exI [of _ a1] exI [of _ a2]) simp
qed

lemma parseLoop_no_fail:
  "\<forall>d \<in> set ds. \<forall>t. \<exists>v. bindToken d t = Inr v \<Longrightarrow> \<exists>ys. parseLoop ds xs = (Inr (), ys)"
proof (induction ds arbitrary: xs)
  case Nil
  then show ?case by simp
next
  case (Cons d ds)
  then obtain v where "bindToken d (js_get xs (arg_id d)) = Inr v" by force
  moreover from Cons obtain ys where "parseLoop ds (js_set xs (arg_id d) v) = (Inr (), ys)"
    by force
  ultimately show ?case by simp
qed

lemma defaultLoop_no_default:
  "\<forall>d \<in> set ds. default_supplier d = None \<Longrightarrow> defaultLoop ds xs = (Inr (), xs)"
  by (induction ds) simp_all

text \<open>The definitions that evaluate a call of \<open>validateArgs\<close> on given specs and tokens.\<close>

lemmas ev = validateArgs_def Let_def addIdToArgs_def objs_of_def arg_required_def arg_optional_def
  arg_rest_def argBuilder_def no_opts_def numOptionalArgs_def is_rest_def bindToken_def
  checkChoices_def array_includes_def js_get_def js_set_def js_slice_from_def

section \<open>Properties of the binder\<close>

text \<open>
  Claim C2. For every definition list (validated or not) and every token list for which
  both loops end without an error: when a spec of the list is required and the value
  that its slot holds after the loops is falsy (the number zero, the empty string,
  \<open>false\<close>, \<open>null\<close>, \<open>NaN\<close> as well as \<open>undefined\<close>), \<open>validateArgs\<close> throws the
  missing-required-arguments error, and that spec is among the specs it carries.
\<close>

theorem validateArgs_falsy_required:
  fixes s :: store and ctx :: 'c
  assumes parsed: "parseLoop (take (length (arr s)) (map (addIdToArgs defs (objs s)) defs)) (arr s) =
                     (Inr (), a1)"
    and filled: "defaultLoop (drop (length a1) (map (addIdToArgs defs (objs s)) defs)) a1 = (Inr (), a2)"
    and spec: "r \<in> set defs" "required (objs s r)"
    and falsy: "\<not> truthy (js_get a2 (arg_id (addIdToArgs defs (objs s) r)))"
  shows "\<exists>missing.
           (validateArgs ctx defs s :: (error + 'ctx Validated) \<times> store) =
             (Inl (RequiredArgsError missing), \<lparr>objs = addIdToArgs defs (objs s), arr = a2\<rparr>) \<and>
           r \<in> set missing"
proof -
  let ?h = "addIdToArgs defs (objs s)"
  let ?missing = "filter (\<lambda>a. required (?h a) \<and> \<not> truthy (js_get a2 (arg_id (?h a)))) defs"
  have mem: "r \<in> set ?missing" using spec falsy by (simp add: addIdToArgs_required)
  then have "?missing \<noteq> []" by (metis empty_iff list.set(1))
  then have "(validateArgs ctx defs s :: (error + 'ctx Validated) \<times> store) =
             (Inl (RequiredArgsError ?missing), \<lparr>objs = ?h, arr = a2\<rparr>)"
    by (simp add: validateArgs_def Let_def parsed filled)
  with mem show ?thesis by blast
qed

theorem validateArgs_falsy_required_witness:
  "(validateArgs () [0]
      \<lparr>objs = objs_of [arg_required ''n'' (no_opts\<lparr>opt_parse := Some (\<lambda>t. Inr (JNum 0))\<rparr>)],
       arr = [JStr ''0'']\<rparr> :: (error + unit Validated) \<times> store) =
     (Inl (RequiredArgsError [0]),
      \<lparr>objs = addIdToArgs [0]
                (objs_of [arg_required ''n'' (no_opts\<lparr>opt_parse := Some (\<lambda>t. Inr (JNum 0))\<rparr>)]),
       arr = [JNum 0]\<rparr>) \<and>
   (validateArgs () [0]
      \<lparr>objs = objs_of [arg_required ''a'' no_opts], arr = [JStr '''']\<rparr>
        :: (error + unit Validated) \<times> store) =
     (Inl (RequiredArgsError [0]),
      \<lparr>objs = addIdToArgs [0] (objs_of [arg_required ''a'' no_opts]), arr = [JStr '''']\<rparr>)"
proof -
  let ?o1 = "objs_of [arg_required ''n'' (no_opts\<lparr>opt_parse := Some (\<lambda>t. Inr (JNum 0))\<rparr>)]"
  let ?s1 = "\<lparr>objs = ?o1, arr = [JStr ''0'']\<rparr>"
  let ?o2 = "objs_of [arg_required ''a'' no_opts]"
  let ?s2 = "\<lparr>objs = ?o2, arr = [JStr '''']\<rparr>"
  have p1: "parseLoop (take (length (arr ?s1)) (map (addIdToArgs [0] (objs ?s1)) [0])) (arr ?s1) =
              (Inr (), [JNum 0])"
    by (simp add: ev)
  have d1: "defaultLoop (drop (length [JNum 0]) (map (addIdToArgs [0] (objs ?s1)) [0])) [JNum 0] =
              (Inr (), [JNum 0])"
    by simp
  have m1: "(0::nat) \<in> set [0]" by simp
  have r1: "required (objs ?s1 0)" by (simp add: ev)
  have f1: "\<not> truthy (js_get [JNum 0] (arg_id (addIdToArgs [0] (objs ?s1) 0)))"
    by (simp add: ev)
  have p2: "parseLoop (take (length (arr ?s2)) (map (addIdToArgs [0] (objs ?s2)) [0])) (arr ?s2) =
              (Inr (), [JStr ''''])"
    by (simp add: ev)
  have d2: "defaultLoop (drop (length [JStr '''']) (map (addIdToArgs [0] (objs ?s2)) [0])) [JStr ''''] =
              (Inr (), [JStr ''''])"
    by simp
  have r2: "required (objs ?s2 0)" by (simp add: ev)
  have f2: "\<not> truthy (js_get [JStr ''''] (arg_id (addIdToArgs [0] (objs ?s2) 0)))"
    by (simp add: ev)
  show ?thesis
    using validateArgs_falsy_required [OF p1 d1 m1 r1 f1, of "()"]
      validateArgs_falsy_required [OF p2 d2 m1 r2 f2, of "()"]
    by (simp add: ev)
qed

text \<open>
  Claim C3, as amended. For every list of distinct spec objects made of \<open>k\<close> required specs
  followed by \<open>m\<close> optional ones, none of them rest, and every list of \<open>N\<close> tokens with
  \<open>k \<le> N \<le> k + m\<close>: when every token passes the choices and the parse function of its
  spec, giving \<open>v i\<close> at position \<open>i\<close>, the values of the required slots are truthy, and
  no default supplier of an unsupplied slot throws, \<open>validateArgs\<close> succeeds. Each of the
  \<open>k + m\<close> positions of the array then reads as the parsed token when one was supplied,
  and else as the value of the default supplier, or as nothing when there is no default.
\<close>

theorem validateArgs_within_bounds:
  fixes s :: store and ctx :: 'c
  assumes dist: "distinct defs"
    and shape: "length defs = k + m"
      "\<forall>i < k. required (objs s (defs ! i)) \<and> \<not> is_rest (objs s (defs ! i))"
      "\<forall>i. k \<le> i \<and> i < k + m \<longrightarrow> \<not> required (objs s (defs ! i)) \<and> \<not> is_rest (objs s (defs ! i))"
    and count: "k \<le> length (arr s)" "length (arr s) \<le> k + m"
    and toks: "\<forall>i < length (arr s). bindToken (objs s (defs ! i)) (arr s ! i) = Inr (v i)"
    and pres: "\<forall>i < k. truthy (v i)"
    and dfls: "\<forall>i. length (arr s) \<le> i \<and> i < k + m \<longrightarrow>
                 (\<forall>e. default_supplier (objs s (defs ! i)) \<noteq> Some (Inl e))"
  shows "\<exists>bound.
           (validateArgs ctx defs s :: (error + 'ctx Validated) \<times> store) =
             (Inr \<lparr>subcommand = None\<rparr>, \<lparr>objs = addIdToArgs defs (objs s), arr = bound\<rparr>) \<and>
           length bound \<le> k + m \<and>
           (\<forall>i < k + m. js_get bound (int i) =
              (if i < length (arr s) then v i else default_or_absent (objs s (defs ! i))))"
proof -
  let ?h = "addIdToArgs defs (objs s)"
  let ?ds = "map ?h defs"
  have t: "\<forall>i. i < length (arr s) \<and> i < length defs \<longrightarrow>
             bindToken (objs s (defs ! i)) (arr s ! i) = Inr (v i)"
    using toks by simp
  have d: "\<forall>i. length (arr s) \<le> i \<and> i < length defs \<longrightarrow>
             (\<forall>e. default_supplier (objs s (defs ! i)) \<noteq> Some (Inl e))"
    using dfls shape(1) by simp
  from binder_loops [OF dist t d] obtain a1 a2 where
    a1: "parseLoop (take (length (arr s)) ?ds) (arr s) = (Inr (), a1)"
    and a2: "defaultLoop (drop (length a1) ?ds) a1 = (Inr (), a2)"
    and len: "length a2 \<le> max (length (arr s)) (length defs)"
    and vals: "\<forall>k. js_get a2 (int k) =
              (if k < length (arr s) \<and> k < length defs then v k
               else if k < length defs then default_or_absent (objs s (defs ! k))
               else js_get (arr s) (int k))"
    by blast
  have len': "length a2 \<le> k + m" using len count(2) shape(1) by simp
  have norest: "\<forall>d \<in> set ?ds. \<not> is_rest d"
  proof
    fix d assume "d \<in> set ?ds"
    then obtain i where i: "i < length defs" "d = ?h (defs ! i)"
      by (auto simp: in_set_conv_nth)
    then have "\<not> is_rest (objs s (defs ! i))"
      using shape by (cases "i < k") auto
    with i show "\<not> is_rest d" by (simp add: addIdToArgs_rest)
  qed
  have max: "numOptionalArgs ?ds = int (k + m)"
    using numOptionalArgs_no_rest [OF norest] shape(1) by simp
  have filt: "filter (\<lambda>a. required (?h a) \<and> \<not> truthy (js_get a2 (arg_id (?h a)))) defs = []"
  proof -
    have "\<not> (required (?h a) \<and> \<not> truthy (js_get a2 (arg_id (?h a))))" if "a \<in> set defs" for a
    proof -
      from that obtain i where i: "i < length defs" "a = defs ! i"
        by (auto simp: in_set_conv_nth)
      show ?thesis
      proof (cases "i < k")
        case True
        then have "js_get a2 (int i) = v i"
          using vals [rule_format, of i] count(1) i(1) by simp
        moreover have "arg_id (?h a) = int i"
          using addIdToArgs_distinct [OF dist i(1), of "objs s"] i(2) by simp
        ultimately show ?thesis using pres True by simp
      next
        case False
        then have "\<not> required (objs s a)" using shape i by simp
        then show ?thesis by (simp add: addIdToArgs_required)
      qed
    qed
    then show ?thesis by (simp add: filter_empty_conv)
  qed
  have "(validateArgs ctx defs s :: (error + 'ctx Validated) \<times> store) =
             (Inr \<lparr>subcommand = None\<rparr>, \<lparr>objs = ?h, arr = a2\<rparr>)"
    using len' by (simp add: validateArgs_def Let_def a1 a2 filt max)
  moreover have "\<forall>i < k + m. js_get a2 (int i) =
              (if i < length (arr s) then v i else default_or_absent (objs s (defs ! i)))"
    using vals shape(1) by simp
  ultimately show ?thesis using len' by blast
qed

theorem validateArgs_within_bounds_witness:
  "\<exists>bound.
     (validateArgs () [0, 1, 2]
        \<lparr>objs = objs_of [arg_required ''a'' no_opts,
                          arg_optional ''b'' (no_opts\<lparr>opt_default := Some (Inr (JNum 5))\<rparr>),
                          arg_optional ''c'' no_opts],
         arr = [JStr ''x'']\<rparr> :: (error + unit Validated) \<times> store) =
       (Inr \<lparr>subcommand = None\<rparr>,
        \<lparr>objs = addIdToArgs [0, 1, 2]
                  (objs_of [arg_required ''a'' no_opts,
                            arg_optional ''b'' (no_opts\<lparr>opt_default := Some (Inr (JNum 5))\<rparr>),
                            arg_optional ''c'' no_opts]),
         arr = bound\<rparr>) \<and>
     length bound \<le> 3 \<and>
     js_get bound 0 = JStr ''x'' \<and> js_get bound 1 = JNum 5 \<and> js_get bound 2 = JUndefined"
proof -
  let ?o = "objs_of [arg_required ''a'' no_opts,
                     arg_optional ''b'' (no_opts\<lparr>opt_default := Some (Inr (JNum 5))\<rparr>),
                     arg_optional ''c'' no_opts]"
  let ?s = "\<lparr>objs = ?o, arr = [JStr ''x'']\<rparr>"
  have 1: "distinct [0::nat, 1, 2]" by simp
  have 2: "length [0::nat, 1, 2] = 1 + 2" by simp
  have 3: "\<forall>i < 1. required (objs ?s ([0, 1, 2] ! i)) \<and> \<not> is_rest (objs ?s ([0, 1, 2] ! i))"
    by (simp add: ev)
  have 4: "\<forall>i. 1 \<le> i \<and> i < 1 + 2 \<longrightarrow>
             \<not> required (objs ?s ([0, 1, 2] ! i)) \<and> \<not> is_rest (objs ?s ([0, 1, 2] ! i))"
  proof (intro allI impI)
    fix i :: nat assume "1 \<le> i \<and> i < 1 + 2"
    then have "i = 1 \<or> i = 2" by auto
    then show "\<not> required (objs ?s ([0, 1, 2] ! i)) \<and> \<not> is_rest (objs ?s ([0, 1, 2] ! i))"
      by (auto simp: ev)
  qed
  have 5: "1 \<le> length (arr ?s)" "length (arr ?s) \<le> 1 + 2" by simp_all
  have 6: "\<forall>i < length (arr ?s). bindToken (objs ?s ([0, 1, 2] ! i)) (arr ?s ! i) = Inr ((\<lambda>i. JStr ''x'') i)"
    by (simp add: ev)
  have 7: "\<forall>i < 1. truthy ((\<lambda>i. JStr ''x'') i)" by simp
  have 8: "\<forall>i. length (arr ?s) \<le> i \<and> i < 1 + 2 \<longrightarrow>
             (\<forall>e. default_supplier (objs ?s ([0, 1, 2] ! i)) \<noteq> Some (Inl e))"
  proof (intro allI impI)
    fix i :: nat and e assume "length (arr ?s) \<le> i \<and> i < 1 + 2"
    then have "i = 1 \<or> i = 2" by auto
    then show "default_supplier (objs ?s ([0, 1, 2] ! i)) \<noteq> Some (Inl e)"
      by (auto simp: ev)
  qed
  from validateArgs_within_bounds [OF 1 2 3 4 5 6 7 8, of "()"] obtain bound where
    b: "(validateArgs () [0, 1, 2] ?s :: (error + unit Validated) \<times> store) =
          (Inr \<lparr>subcommand = None\<rparr>, \<lparr>objs = addIdToArgs [0, 1, 2] (objs ?s), arr = bound\<rparr>)"
       "length bound \<le> 1 + 2"
       "\<forall>i < 1 + 2. js_get bound (int i) =
          (if i < length (arr ?s) then JStr ''x'' else default_or_absent (objs ?s ([0, 1, 2] ! i)))"
    by blast
  have "js_get bound 0 = JStr ''x''" using b(3) [rule_format, of 0] by simp
  moreover have "js_get bound 1 = JNum 5"
    using b(3) [rule_format, of 1] by (simp add: ev default_or_absent_def)
  moreover have "js_get bound 2 = JUndefined"
    using b(3) [rule_format, of 2] by (simp add: ev default_or_absent_def)
  ultimately show ?thesis using b(1,2) by auto
qed

text \<open>
  Where claim C3 fails as it is written. One required spec with the choices \<open>a\<close>, \<open>b\<close>
  and the single token \<open>"c"\<close>: binding fails with the invalid-choice error. One required
  spec and the single token \<open>""\<close>: binding fails with the missing-required-arguments
  error. One optional spec object with the default \<open>"d"\<close> listed twice and no token:
  binding succeeds and position 0 is left empty.
\<close>

theorem validateArgs_within_bounds_counterexample:
  "fst (validateArgs () [0]
      \<lparr>objs = objs_of [arg_required ''a'' (no_opts\<lparr>opt_choices := Some (ChoicesArray [''a'', ''b''])\<rparr>)],
       arr = [JStr ''c'']\<rparr> :: (error + unit Validated) \<times> store) =
     Inl (InvalidChoice (JStr ''c'') [''a'', ''b'']) \<and>
   fst (validateArgs () [0]
      \<lparr>objs = objs_of [arg_required ''a'' no_opts], arr = [JStr '''']\<rparr>
        :: (error + unit Validated) \<times> store) =
     Inl (RequiredArgsError [0]) \<and>
   (validateArgs () [0, 0]
      \<lparr>objs = objs_of [arg_optional ''a'' (no_opts\<lparr>opt_default := Some (Inr (JStr ''d''))\<rparr>)],
       arr = []\<rparr> :: (error + unit Validated) \<times> store) =
     (Inr \<lparr>subcommand = None\<rparr>,
      \<lparr>objs = addIdToArgs [0, 0]
                (objs_of [arg_optional ''a'' (no_opts\<lparr>opt_default := Some (Inr (JStr ''d''))\<rparr>)]),
       arr = [JUndefined, JStr ''d'']\<rparr>)"
  by (simp add: ev)

text \<open>
  Claim C4, as amended. Binding the tokens \<open>["x","y","z"]\<close> against the definition list
  \<open>[required "a", rest "b"]\<close> succeeds, and for no token list at all do these
  definitions give an unexpected-arguments error. The bound arguments are the flat array
  \<open>["x","y","z"]\<close>: \<open>a\<close> is \<open>"x"\<close> at position 0, and the tokens of the rest slot follow
  at the positions 1 and 2; they are not collected into a list.
\<close>

theorem validateArgs_required_rest_scenario:
  "(validateArgs ctx [0, 1]
      \<lparr>objs = objs_of [arg_required ''a'' no_opts, arg_rest ''b'' no_opts],
       arr = [JStr ''x'', JStr ''y'', JStr ''z'']\<rparr> :: (error + 'ctx Validated) \<times> store) =
    (Inr \<lparr>subcommand = None\<rparr>,
     \<lparr>objs = addIdToArgs [0, 1] (objs_of [arg_required ''a'' no_opts, arg_rest ''b'' no_opts]),
      arr = [JStr ''x'', JStr ''y'', JStr ''z'']\<rparr>) \<and>
   (\<forall>tokens e.
      fst (validateArgs ctx [0, 1]
        \<lparr>objs = objs_of [arg_required ''a'' no_opts, arg_rest ''b'' no_opts], arr = tokens\<rparr>
          :: (error + 'ctx Validated) \<times> store) \<noteq> Inl (UnexpectedArgsError e))"
proof (intro conjI allI)
  let ?o = "objs_of [arg_required ''a'' no_opts, arg_rest ''b'' no_opts]"
  show "(validateArgs ctx [0, 1] \<lparr>objs = ?o, arr = [JStr ''x'', JStr ''y'', JStr ''z'']\<rparr>
          :: (error + 'ctx Validated) \<times> store) =
    (Inr \<lparr>subcommand = None\<rparr>,
     \<lparr>objs = addIdToArgs [0, 1] ?o, arr = [JStr ''x'', JStr ''y'', JStr ''z'']\<rparr>)"
    by (simp add: ev)
next
  fix tokens :: "jsval list" and e
  let ?o = "objs_of [arg_required ''a'' no_opts, arg_rest ''b'' no_opts]"
  let ?ds = "map (addIdToArgs [0, 1] ?o) [0, 1]"
  have b: "\<forall>d \<in> set ?ds. \<forall>t. \<exists>v. bindToken d t = Inr v"
    by (simp add: ev)
  have b': "\<forall>d \<in> set (take (length tokens) ?ds). \<forall>t. \<exists>v. bindToken d t = Inr v"
    using b by (meson in_set_takeD)
  obtain a1 where a1: "parseLoop (take (length tokens) ?ds) tokens = (Inr (), a1)"
    using parseLoop_no_fail [OF b'] by blast
  have d: "\<forall>d \<in> set ?ds. default_supplier d = None"
    by (simp add: ev)
  have d': "\<forall>d \<in> set (drop (length a1) ?ds). default_supplier d = None"
    using d by (meson in_set_dropD)
  have a2: "defaultLoop (drop (length a1) ?ds) a1 = (Inr (), a1)"
    using defaultLoop_no_default [OF d'] .
  have max: "numOptionalArgs ?ds = - 1" by (simp add: ev)
  show "fst (validateArgs ctx [0, 1] \<lparr>objs = ?o, arr = tokens\<rparr>
          :: (error + 'ctx Validated) \<times> store) \<noteq> Inl (UnexpectedArgsError e)"
    using a1 a2 max by (simp add: validateArgs_def Let_def)
qed

text \<open>
  Where the claim fails as it is written: position 1 of the bound array holds the string
  \<open>"y"\<close>, and the array is not \<open>["x", ["y","z"]]\<close>.
\<close>

theorem validateArgs_required_rest_scenario_counterexample:
  "js_get (arr (snd (validateArgs () [0, 1]
      \<lparr>objs = objs_of [arg_required ''a'' no_opts, arg_rest ''b'' no_opts],
       arr = [JStr ''x'', JStr ''y'', JStr ''z'']\<rparr> :: (error + unit Validated) \<times> store))) 1
     = JStr ''y'' \<and>
   arr (snd (validateArgs () [0, 1]
      \<lparr>objs = objs_of [arg_required ''a'' no_opts, arg_rest ''b'' no_opts],
       arr = [JStr ''x'', JStr ''y'', JStr ''z'']\<rparr> :: (error + unit Validated) \<times> store))
     \<noteq> [JStr ''x'', JArr [JStr ''y'', JStr ''z'']]"
  by (simp add: ev)

text \<open>
  Claim C6, as amended. For every definition list without a rest slot (its maximum is its
  length) and every token list longer than that: when all tokens bind (the first loop
  ends without an error) and no required spec counts as missing (the slot of each holds a
  truthy value), \<open>validateArgs\<close> throws the unexpected-arguments error with exactly the
  values at the positions past the maximum, which are the excess tokens as they were
  passed, and the array keeps the values bound at the earlier positions.
\<close>

theorem validateArgs_unexpected:
  fixes s :: store and ctx :: 'c
  assumes no_rest: "\<forall>r \<in> set defs. \<not> is_rest (objs s r)"
    and longer: "length defs < length (arr s)"
    and binds: "parseLoop (map (addIdToArgs defs (objs s)) defs) (arr s) = (Inr (), bound)"
    and present: "\<forall>r \<in> set defs. required (objs s r) \<longrightarrow>
                    truthy (js_get bound (arg_id (addIdToArgs defs (objs s) r)))"
  shows "(validateArgs ctx defs s :: (error + 'ctx Validated) \<times> store) =
           (Inl (UnexpectedArgsError (drop (length defs) bound)),
            \<lparr>objs = addIdToArgs defs (objs s), arr = bound\<rparr>) \<and>
         drop (length defs) bound = drop (length defs) (arr s) \<and>
         length bound = length (arr s)"
proof -
  let ?h = "addIdToArgs defs (objs s)"
  let ?ds = "map ?h defs"
  have ids: "\<forall>d \<in> set ?ds. arg_id d < int (length (arr s))"
    using addIdToArgs_range [of _ defs "objs s"] longer by fastforce
  have len: "length bound = length (arr s)"
    using parseLoop_length [OF binds ids] .
  have frame: "js_get bound k = js_get (arr s) k" if "int (length defs) \<le> k" for k
  proof (rule parseLoop_frame [OF binds])
    show "\<forall>d \<in> set ?ds. arg_id d \<noteq> k"
      using addIdToArgs_range [of _ defs "objs s"] that by fastforce
  qed
  have excess: "drop (length defs) bound = drop (length defs) (arr s)"
  proof (rule nth_equalityI)
    show "length (drop (length defs) bound) = length (drop (length defs) (arr s))"
      using len by simp
  next
    fix i assume "i < length (drop (length defs) bound)"
    then have i: "length defs + i < length bound" by simp
    have "js_get bound (int (length defs + i)) = js_get (arr s) (int (length defs + i))"
      by (rule frame) simp
    with i len show "drop (length defs) bound ! i = drop (length defs) (arr s) ! i"
      by (simp add: js_get_nat del: of_nat_add)
  qed
  have take_all: "take (length (arr s)) ?ds = ?ds" using longer by simp
  have missing: "drop (length bound) ?ds = []" using longer len by simp
  have max: "numOptionalArgs ?ds = int (length defs)"
    using numOptionalArgs_no_rest [of ?ds] no_rest by (simp add: addIdToArgs_rest)
  have filt: "filter (\<lambda>a. required (?h a) \<and> \<not> truthy (js_get bound (arg_id (?h a)))) defs = []"
    using present by (simp add: filter_empty_conv addIdToArgs_required)
  have "(validateArgs ctx defs s :: (error + 'ctx Validated) \<times> store) =
           (Inl (UnexpectedArgsError (drop (length defs) bound)),
            \<lparr>objs = ?h, arr = bound\<rparr>)"
    using longer len
    by (simp add: validateArgs_def Let_def take_all binds missing max filt js_slice_from_def)
  with excess len show ?thesis by simp
qed

theorem validateArgs_unexpected_witness:
  "(validateArgs () [0]
      \<lparr>objs = objs_of [arg_required ''a'' no_opts], arr = [JStr ''x'', JStr ''y'']\<rparr>
        :: (error + unit Validated) \<times> store) =
     (Inl (UnexpectedArgsError [JStr ''y'']),
      \<lparr>objs = addIdToArgs [0] (objs_of [arg_required ''a'' no_opts]),
       arr = [JStr ''x'', JStr ''y'']\<rparr>)"
proof -
  let ?s = "\<lparr>objs = objs_of [arg_required ''a'' no_opts], arr = [JStr ''x'', JStr ''y'']\<rparr>"
  have 1: "\<forall>r \<in> set [0]. \<not> is_rest (objs ?s r)" by (simp add: ev)
  have 2: "length [0::nat] < length (arr ?s)" by simp
  have 3: "parseLoop (map (addIdToArgs [0] (objs ?s)) [0]) (arr ?s) = (Inr (), [JStr ''x'', JStr ''y''])"
    by (simp add: ev)
  have 4: "\<forall>r \<in> set [0]. required (objs ?s r) \<longrightarrow>
             truthy (js_get [JStr ''x'', JStr ''y''] (arg_id (addIdToArgs [0] (objs ?s) r)))"
    by (simp add: ev)
  show ?thesis
    using validateArgs_unexpected [OF 1 2 3 4, of "()"] by simp
qed

text \<open>
  Where claim C6 fails as it is written: one required spec and the tokens \<open>""\<close>, \<open>"y"\<close>.
  Both tokens bind, the first to the empty string, and the error is the
  missing-required-arguments error, which is tested for first.
\<close>

theorem validateArgs_unexpected_counterexample:
  "parseLoop (map (addIdToArgs [0] (objs_of [arg_required ''a'' no_opts])) [0]) [JStr '''', JStr ''y''] =
     (Inr (), [JStr '''', JStr ''y'']) \<and>
   (validateArgs () [0]
      \<lparr>objs = objs_of [arg_required ''a'' no_opts], arr = [JStr '''', JStr ''y'']\<rparr>
        :: (error + unit Validated) \<times> store) =
     (Inl (RequiredArgsError [0]),
      \<lparr>objs = addIdToArgs [0] (objs_of [arg_required ''a'' no_opts]),
       arr = [JStr '''', JStr ''y'']\<rparr>)"
  by (simp add: ev)


section \<open>Properties of command construction and exec\<close>

lemma catchBlock_version [simp]:
  "catchBlock (VersionSignal rendered) out = (Inr JUndefined, out @ [rendered])"
  by (simp add: catchBlock_def)

lemma catchBlock_other:
  "\<forall>t. e \<noteq> VersionSignal t \<Longrightarrow> catchBlock e out = (Inl e, out)"
  by (cases e) (simp_all add: catchBlock_def)

lemma catchBlock_no_version:
  "catchBlock e out = (Inl e', out') \<Longrightarrow> e' \<noteq> VersionSignal t"
  by (cases e) (auto simp: catchBlock_def)

lemma exec_parse_throws:
  "parseArgv (options cmd) argv out = (Inl e, outp) \<Longrightarrow>
   exec parseArgv newContext cmd argv out = Some (catchBlock e outp)"
  by (subst exec.simps) simp

lemma exec_context_throws:
  "parseArgv (options cmd) argv out = (Inr p, outp) \<Longrightarrow> newContext cmd = Inl e \<Longrightarrow>
   exec parseArgv newContext cmd argv out = Some (catchBlock e outp)"
  by (subst exec.simps) simp

lemma exec_run:
  "parseArgv (options cmd) argv out = (Inr p, outp) \<Longrightarrow> newContext cmd = Inr c \<Longrightarrow>
   parsed_subcommand p = None \<Longrightarrow> run (options cmd) = Some f \<Longrightarrow>
   exec parseArgv newContext cmd argv out =
     (case f \<lparr>rp_args = parsed_args p, rp_flags = parsed_flags p, rp_ctx = c\<rparr> outp of
        (Inl err, outr) \<Rightarrow> Some (catchBlock err outr)
      | (Inr result, outr) \<Rightarrow> Some (Inr result, outr))"
  by (subst exec.simps) simp

lemma exec_dispatch:
  "parseArgv (options cmd) argv out = (Inr p, outp) \<Longrightarrow> newContext cmd = Inr c \<Longrightarrow>
   parsed_subcommand p = Some sub \<Longrightarrow>
   exec parseArgv newContext cmd argv out =
     Option.bind (exec parseArgv newContext sub (parsed_args p) outp)
       (\<lambda>r. case r of
               (Inl err, outr) \<Rightarrow> Some (catchBlock err outr)
             | (Inr result, outr) \<Rightarrow> Some (Inr result, outr))"
  by (subst exec.simps) simp

lemma exec_no_version_escapes:
  "exec parseArgv newContext cmd argv out = Some (Inl e, out') \<Longrightarrow> e \<noteq> VersionSignal t"
  by (subst (asm) exec.simps)
     (auto split: prod.splits sum.splits option.splits Option.bind_splits
           dest: catchBlock_no_version)

lemmas ex = ex_parse_def ex_command_def ex_parent_def ex_throw_def

text \<open>
  The check of \<open>runOrSubcommandsCheck\<close> comes first in the constructor: with both a run
  function and subcommands, and with neither, construction fails with the definition
  error that says so.
\<close>

lemma Command_constructor_both_or_neither:
  "(p_subcommands po \<noteq> None \<and> p_run po \<noteq> None \<longrightarrow>
      Command_constructor po =
        Inl (Error ''command may have subcommands OR a run function but not both.'')) \<and>
   (p_subcommands po = None \<and> p_run po = None \<longrightarrow>
      Command_constructor po = Inl (Error ''command must have subcommands OR a run function''))"
  by (simp add: Command_constructor_def runOrSubcommandsCheck_def Let_def)

lemma Command_constructor_both_or_neither_instances:
  "Command_constructor
     \<lparr>p_args = None, p_flags = None, p_run = Some (ex_throw (Error ''boom'')),
      p_subcommands = Some []\<rparr> =
     Inl (Error ''command may have subcommands OR a run function but not both.'') \<and>
   Command_constructor
     (\<lparr>p_args = None, p_flags = None, p_run = None, p_subcommands = None\<rparr> :: unit Options) =
     Inl (Error ''command must have subcommands OR a run function'')"
  using
    Command_constructor_both_or_neither [where
      po = "\<lparr>p_args = None, p_flags = None, p_run = Some (ex_throw (Error ''boom'')),
             p_subcommands = Some []\<rparr>"]
    Command_constructor_both_or_neither [where
      po = "\<lparr>p_args = None, p_flags = None, p_run = None, p_subcommands = None\<rparr> :: unit Options"]
  by simp

text \<open>With exactly one of the two, the constructor goes on to \<open>validateArgDefs\<close> and fails there.\<close>

lemma Command_constructor_exactly_one:
  "(p_subcommands po \<noteq> None) \<noteq> (p_run po \<noteq> None) \<Longrightarrow>
   Command_constructor po = Inl (TypeError ''defs is not iterable'')"
  by (auto simp: Command_constructor_def runOrSubcommandsCheck_def validateArgDefs_options_def
           Let_def)

text \<open>
  Claim C7. Constructing a command with both a run function and subcommands fails with a
  definition error, constructing one with neither fails too, and construction succeeds
  only when exactly one of the two is present and the argument list validates. The code
  does not do the last part: the constructor hands the whole options object, not its
  field \<open>args\<close>, to \<open>validateArgDefs\<close>, so that the argument list is never looked at. For
  the command of the test "passes through return value", which has a run function that
  returns 123 and the default argument list, empty and valid, construction throws a
  \<open>TypeError\<close> where it should succeed.
\<close>

theorem Command_constructor_run_only:
  "validateArgDefs [] = Inr () \<and>
   Command_constructor
     (\<lparr>p_args = None, p_flags = None,
       p_run = Some (\<lambda>params out. (Inr (JNum 123), out)),
       p_subcommands = None\<rparr> :: unit Options) =
     Inl (TypeError ''defs is not iterable'')"
  by (simp add: validateArgDefs_def validateNothingRequiredAfterOptional_def
      Command_constructor_def runOrSubcommandsCheck_def validateArgDefs_options_def Let_def)

text \<open>
  Claim C8. When the flag parser throws the version signal, \<open>exec\<close> writes the rendered
  text to standard output and resolves with \<open>undefined\<close>. An error that is not the
  version signal, thrown by the flag parser, by the constructor of the context, by the
  run function or by the \<open>exec\<close> of the subcommand that was selected, is the error that
  \<open>exec\<close> throws, and nothing is written.
\<close>

theorem exec_version_signal:
  "(parseArgv (options cmd) argv out = (Inl (VersionSignal rendered), outp) \<longrightarrow>
      exec parseArgv newContext cmd argv out = Some (Inr JUndefined, outp @ [rendered])) \<and>
   ((\<forall>t. e \<noteq> VersionSignal t) \<longrightarrow>
      (parseArgv (options cmd) argv out = (Inl e, outp) \<longrightarrow>
         exec parseArgv newContext cmd argv out = Some (Inl e, outp)) \<and>
      (parseArgv (options cmd) argv out = (Inr p, outp) \<and> newContext cmd = Inl e \<longrightarrow>
         exec parseArgv newContext cmd argv out = Some (Inl e, outp)) \<and>
      (parseArgv (options cmd) argv out = (Inr p, outp) \<and> newContext cmd = Inr c \<and>
       parsed_subcommand p = None \<and> run (options cmd) = Some f \<and>
       f \<lparr>rp_args = parsed_args p, rp_flags = parsed_flags p, rp_ctx = c\<rparr> outp = (Inl e, outr) \<longrightarrow>
         exec parseArgv newContext cmd argv out = Some (Inl e, outr)) \<and>
      (parseArgv (options cmd) argv out = (Inr p, outp) \<and> newContext cmd = Inr c \<and>
       parsed_subcommand p = Some sub \<and>
       exec parseArgv newContext sub (parsed_args p) outp = Some (Inl e, outr) \<longrightarrow>
         exec parseArgv newContext cmd argv out = Some (Inl e, outr)))"
proof (intro conjI impI)
  assume "parseArgv (options cmd) argv out = (Inl (VersionSignal rendered), outp)"
  then show "exec parseArgv newContext cmd argv out = Some (Inr JUndefined, outp @ [rendered])"
    by (simp add: exec_parse_throws)
next
  assume "\<forall>t. e \<noteq> VersionSignal t" "parseArgv (options cmd) argv out = (Inl e, outp)"
  then show "exec parseArgv newContext cmd argv out = Some (Inl e, outp)"
    by (simp add: exec_parse_throws catchBlock_other)
next
  assume "\<forall>t. e \<noteq> VersionSignal t"
    "parseArgv (options cmd) argv out = (Inr p, outp) \<and> newContext cmd = Inl e"
  then show "exec parseArgv newContext cmd argv out = Some (Inl e, outp)"
    by (simp add: exec_context_throws catchBlock_other)
next
  assume "\<forall>t. e \<noteq> VersionSignal t"
    "parseArgv (options cmd) argv out = (Inr p, outp) \<and> newContext cmd = Inr c \<and>
       parsed_subcommand p = None \<and> run (options cmd) = Some f \<and>
       f \<lparr>rp_args = parsed_args p, rp_flags = parsed_flags p, rp_ctx = c\<rparr> outp = (Inl e, outr)"
  then show "exec parseArgv newContext cmd argv out = Some (Inl e, outr)"
    by (simp add: exec_run catchBlock_other)
next
  assume "\<forall>t. e \<noteq> VersionSignal t"
    "parseArgv (options cmd) argv out = (Inr p, outp) \<and> newContext cmd = Inr c \<and>
       parsed_subcommand p = Some sub \<and>
       exec parseArgv newContext sub (parsed_args p) outp = Some (Inl e, outr)"
  then show "exec parseArgv newContext cmd argv out = Some (Inl e, outr)"
    by (simp add: exec_dispatch catchBlock_other)
qed

theorem exec_version_signal_witness:
  "exec ex_parse (\<lambda>c. Inr ()) (ex_command (ex_throw (Error ''boom''))) [JStr ''--version''] [] =
     Some (Inr JUndefined, [''1.0.0'']) \<and>
   exec ex_parse (\<lambda>c. Inr ()) (ex_parent (ex_command (ex_throw (Error ''boom'')))) [JStr ''nope''] [] =
     Some (Inl (Error ''unknown command''), []) \<and>
   exec ex_parse (\<lambda>c. Inl (Error ''no home'')) (ex_command (ex_throw (Error ''boom''))) [] [] =
     Some (Inl (Error ''no home''), []) \<and>
   exec ex_parse (\<lambda>c. Inr ()) (ex_command (ex_throw (Error ''boom''))) [] [] =
     Some (Inl (Error ''boom''), []) \<and>
   exec ex_parse (\<lambda>c. Inr ()) (ex_parent (ex_command (ex_throw (Error ''boom'')))) [JStr ''sub''] [] =
     Some (Inl (Error ''boom''), [])"
proof -
  let ?leaf = "ex_command (ex_throw (Error ''boom''))"
  let ?p0 = "\<lparr>parsed_args = [], parsed_flags = [], parsed_subcommand = None\<rparr> :: unit Parsed"
  have 1: "exec ex_parse (\<lambda>c. Inr ()) ?leaf [JStr ''--version''] [] = Some (Inr JUndefined, [''1.0.0''])"
    using exec_version_signal [where parseArgv = ex_parse and cmd = ?leaf
        and argv = "[JStr ''--version'']" and out = "[]" and rendered = "''1.0.0''" and outp = "[]"
        and newContext = "\<lambda>c. Inr ()" and e = "VersionSignal []"]
    by (simp add: ex)
  have 2: "exec ex_parse (\<lambda>c. Inr ()) (ex_parent ?leaf) [JStr ''nope''] [] =
             Some (Inl (Error ''unknown command''), [])"
    using exec_version_signal [where parseArgv = ex_parse and cmd = "ex_parent ?leaf"
        and argv = "[JStr ''nope'']" and out = "[]" and outp = "[]"
        and newContext = "\<lambda>c. Inr ()" and e = "Error ''unknown command''"]
    by (simp add: ex)
  have 3: "exec ex_parse (\<lambda>c. Inl (Error ''no home'')) ?leaf [] [] = Some (Inl (Error ''no home''), [])"
    using exec_version_signal [where parseArgv = ex_parse and cmd = ?leaf
        and argv = "[]" and out = "[]" and outp = "[]" and p = ?p0
        and newContext = "\<lambda>c. Inl (Error ''no home'')" and e = "Error ''no home''"]
    by (simp add: ex)
  have 4: "exec ex_parse (\<lambda>c. Inr ()) ?leaf [] [] = Some (Inl (Error ''boom''), [])"
    using exec_version_signal [where parseArgv = ex_parse and cmd = ?leaf
        and argv = "[]" and out = "[]" and outp = "[]" and p = ?p0 and c = "()"
        and f = "ex_throw (Error ''boom'')" and outr = "[]"
        and newContext = "\<lambda>c. Inr ()" and e = "Error ''boom''"]
    by (simp add: ex)
  have 5: "exec ex_parse (\<lambda>c. Inr ()) (ex_parent ?leaf) [JStr ''sub''] [] = Some (Inl (Error ''boom''), [])"
    using 4 exec_version_signal [where parseArgv = ex_parse and cmd = "ex_parent ?leaf"
        and argv = "[JStr ''sub'']" and out = "[]" and outp = "[]"
        and p = "\<lparr>parsed_args = [], parsed_flags = [], parsed_subcommand = Some ?leaf\<rparr>"
        and c = "()" and sub = ?leaf and outr = "[]"
        and newContext = "\<lambda>c. Inr ()" and e = "Error ''boom''"]
    by (simp add: ex)
  from 1 2 3 4 5 show ?thesis by blast
qed

text \<open>
  Claim C9. The version signal is caught wherever it is thrown inside \<open>exec\<close>: thrown
  by the constructor of the context or by the run function, it is rendered to standard
  output and \<open>exec\<close> resolves with \<open>undefined\<close>; thrown while the selected subcommand
  executes (by the flag parser or by the run function there), it is rendered once and
  the \<open>exec\<close> of the parent resolves with \<open>undefined\<close> too. No call of \<open>exec\<close> ever
  throws a version signal.
\<close>

theorem exec_catches_signal_anywhere:
  "(parseArgv (options cmd) argv out = (Inr p, outp) \<and> newContext cmd = Inl (VersionSignal rendered) \<longrightarrow>
      exec parseArgv newContext cmd argv out = Some (Inr JUndefined, outp @ [rendered])) \<and>
   (parseArgv (options cmd) argv out = (Inr p, outp) \<and> newContext cmd = Inr c \<and>
    parsed_subcommand p = None \<and> run (options cmd) = Some f \<and>
    f \<lparr>rp_args = parsed_args p, rp_flags = parsed_flags p, rp_ctx = c\<rparr> outp =
      (Inl (VersionSignal rendered), outr) \<longrightarrow>
      exec parseArgv newContext cmd argv out = Some (Inr JUndefined, outr @ [rendered])) \<and>
   (parseArgv (options cmd) argv out = (Inr p, outp) \<and> newContext cmd = Inr c \<and>
    parsed_subcommand p = Some sub \<and>
    parseArgv (options sub) (parsed_args p) outp = (Inl (VersionSignal rendered), outr) \<longrightarrow>
      exec parseArgv newContext cmd argv out = Some (Inr JUndefined, outr @ [rendered])) \<and>
   (parseArgv (options cmd) argv out = (Inr p, outp) \<and> newContext cmd = Inr c \<and>
    parsed_subcommand p = Some sub \<and>
    parseArgv (options sub) (parsed_args p) outp = (Inr q, outq) \<and> newContext sub = Inr d \<and>
    parsed_subcommand q = None \<and> run (options sub) = Some g \<and>
    g \<lparr>rp_args = parsed_args q, rp_flags = parsed_flags q, rp_ctx = d\<rparr> outq =
      (Inl (VersionSignal rendered), outr) \<longrightarrow>
      exec parseArgv newContext cmd argv out = Some (Inr JUndefined, outr @ [rendered])) \<and>
   (\<forall>e out'. exec parseArgv newContext cmd argv out = Some (Inl e, out') \<longrightarrow>
      (\<forall>t. e \<noteq> VersionSignal t))"
proof (intro conjI impI allI)
  assume "parseArgv (options cmd) argv out = (Inr p, outp) \<and> newContext cmd = Inl (VersionSignal rendered)"
  then show "exec parseArgv newContext cmd argv out = Some (Inr JUndefined, outp @ [rendered])"
    by (simp add: exec_context_throws)
next
  assume "parseArgv (options cmd) argv out = (Inr p, outp) \<and> newContext cmd = Inr c \<and>
    parsed_subcommand p = None \<and> run (options cmd) = Some f \<and>
    f \<lparr>rp_args = parsed_args p, rp_flags = parsed_flags p, rp_ctx = c\<rparr> outp =
      (Inl (VersionSignal rendered), outr)"
  then show "exec parseArgv newContext cmd argv out = Some (Inr JUndefined, outr @ [rendered])"
    by (simp add: exec_run)
next
  assume a: "parseArgv (options cmd) argv out = (Inr p, outp) \<and> newContext cmd = Inr c \<and>
    parsed_subcommand p = Some sub \<and>
    parseArgv (options sub) (parsed_args p) outp = (Inl (VersionSignal rendered), outr)"
  then have "exec parseArgv newContext sub (parsed_args p) outp = Some (Inr JUndefined, outr @ [rendered])"
    by (simp add: exec_parse_throws)
  with a show "exec parseArgv newContext cmd argv out = Some (Inr JUndefined, outr @ [rendered])"
    by (simp add: exec_dispatch)
next
  assume a: "parseArgv (options cmd) argv out = (Inr p, outp) \<and> newContext cmd = Inr c \<and>
    parsed_subcommand p = Some sub \<and>
    parseArgv (options sub) (parsed_args p) outp = (Inr q, outq) \<and> newContext sub = Inr d \<and>
    parsed_subcommand q = None \<and> run (options sub) = Some g \<and>
    g \<lparr>rp_args = parsed_args q, rp_flags = parsed_flags q, rp_ctx = d\<rparr> outq =
      (Inl (VersionSignal rendered), outr)"
  then have "exec parseArgv newContext sub (parsed_args p) outp = Some (Inr JUndefined, outr @ [rendered])"
    by (simp add: exec_run)
  with a show "exec parseArgv newContext cmd argv out = Some (Inr JUndefined, outr @ [rendered])"
    by (simp add: exec_dispatch)
next
  fix e out' t
  assume "exec parseArgv newContext cmd argv out = Some (Inl e, out')"
  then show "e \<noteq> VersionSignal t" by (rule exec_no_version_escapes)
qed

theorem exec_catches_signal_anywhere_witness:
  "exec ex_parse (\<lambda>c. Inl (VersionSignal ''2.0'')) (ex_command (ex_throw (Error ''boom''))) [] [] =
     Some (Inr JUndefined, [''2.0'']) \<and>
   exec ex_parse (\<lambda>c. Inr ()) (ex_command (ex_throw (VersionSignal ''2.0''))) [] [] =
     Some (Inr JUndefined, [''2.0'']) \<and>
   exec ex_parse (\<lambda>c. Inr ()) (ex_parent (ex_command (ex_throw (Error ''boom''))))
       [JStr ''sub'', JStr ''--version''] [] =
     Some (Inr JUndefined, [''1.0.0'']) \<and>
   exec ex_parse (\<lambda>c. Inr ()) (ex_parent (ex_command (ex_throw (VersionSignal ''2.0''))))
       [JStr ''sub''] [] =
     Some (Inr JUndefined, [''2.0''])"
proof -
  let ?p0 = "\<lparr>parsed_args = [], parsed_flags = [], parsed_subcommand = None\<rparr> :: unit Parsed"
  let ?boom = "ex_command (ex_throw (Error ''boom''))"
  let ?ver = "ex_command (ex_throw (VersionSignal ''2.0''))"
  have 1: "exec ex_parse (\<lambda>c. Inl (VersionSignal ''2.0'')) ?boom [] [] = Some (Inr JUndefined, [''2.0''])"
    using exec_catches_signal_anywhere [where parseArgv = ex_parse and cmd = ?boom
        and argv = "[]" and out = "[]" and outp = "[]" and p = ?p0 and rendered = "''2.0''"
        and newContext = "\<lambda>c. Inl (VersionSignal ''2.0'')"]
    by (simp add: ex)
  have 2: "exec ex_parse (\<lambda>c. Inr ()) ?ver [] [] = Some (Inr JUndefined, [''2.0''])"
    using exec_catches_signal_anywhere [where parseArgv = ex_parse and cmd = ?ver
        and argv = "[]" and out = "[]" and outp = "[]" and p = ?p0 and rendered = "''2.0''"
        and c = "()" and f = "ex_throw (VersionSignal ''2.0'')" and outr = "[]"
        and newContext = "\<lambda>c. Inr ()"]
    by (simp add: ex)
  have 3: "exec ex_parse (\<lambda>c. Inr ()) (ex_parent ?boom) [JStr ''sub'', JStr ''--version''] [] =
             Some (Inr JUndefined, [''1.0.0''])"
    using exec_catches_signal_anywhere [where parseArgv = ex_parse and cmd = "ex_parent ?boom"
        and argv = "[JStr ''sub'', JStr ''--version'']" and out = "[]" and outp = "[]"
        and p = "\<lparr>parsed_args = [JStr ''--version''], parsed_flags = [], parsed_subcommand = Some ?boom\<rparr>"
        and rendered = "''1.0.0''" and c = "()" and sub = ?boom and outr = "[]"
        and newContext = "\<lambda>c. Inr ()"]
    by (simp add: ex)
  have 4: "exec ex_parse (\<lambda>c. Inr ()) (ex_parent ?ver) [JStr ''sub''] [] =
             Some (Inr JUndefined, [''2.0''])"
    using exec_catches_signal_anywhere [where parseArgv = ex_parse and cmd = "ex_parent ?ver"
        and argv = "[JStr ''sub'']" and out = "[]" and outp = "[]"
        and p = "\<lparr>parsed_args = [], parsed_flags = [], parsed_subcommand = Some ?ver\<rparr>"
        and rendered = "''2.0''" and c = "()" and sub = ?ver and outr = "[]"
        and q = ?p0 and outq = "[]" and d = "()" and g = "ex_throw (VersionSignal ''2.0'')"
        and newContext = "\<lambda>c. Inr ()"]
    by (simp add: ex)
  from 1 2 3 4 show ?thesis by blast
qed

end
